theory Spec2Isabelle
  imports Complex_Main "HOL-Library.Word"
begin

unbundle bit_operations_syntax

section \<open>Floating-point values\<close>

text \<open>
  The C++ type \<^verbatim>\<open>float\<close>.  A finite value is represented by the real number it
  denotes; the special values of IEEE 754 (the two infinities and not-a-number) are
  constructors of their own, so that a division by zero is visible in the result
  instead of being hidden by the total division of HOL.  Rounding, overflow to
  infinity and the sign of zero are not represented: arithmetic on finite values is
  exact.  Every zero divisor that occurs in this program is a positive zero (an
  accumulator that starts at \<^verbatim>\<open>0\<close>, or an unsigned integer converted to
  \<^verbatim>\<open>float\<close>), which fixes the sign of the quotient of a finite value by zero.
\<close>

datatype float = Fin real | PInf | NInf | NaN

fun fadd :: "float \<Rightarrow> float \<Rightarrow> float" where
  "fadd (Fin x) (Fin y) = Fin (x + y)"
| "fadd NaN _ = NaN"
| "fadd _ NaN = NaN"
| "fadd PInf NInf = NaN"
| "fadd NInf PInf = NaN"
| "fadd PInf _ = PInf"
| "fadd _ PInf = PInf"
| "fadd NInf _ = NInf"
| "fadd _ NInf = NInf"

fun fmul :: "float \<Rightarrow> float \<Rightarrow> float" where
  "fmul (Fin x) (Fin y) = Fin (x * y)"
| "fmul NaN _ = NaN"
| "fmul _ NaN = NaN"
| "fmul (Fin x) PInf = (if x = 0 then NaN else if 0 < x then PInf else NInf)"
| "fmul (Fin x) NInf = (if x = 0 then NaN else if 0 < x then NInf else PInf)"
| "fmul PInf (Fin y) = (if y = 0 then NaN else if 0 < y then PInf else NInf)"
| "fmul NInf (Fin y) = (if y = 0 then NaN else if 0 < y then NInf else PInf)"
| "fmul PInf PInf = PInf"
| "fmul NInf NInf = PInf"
| "fmul PInf NInf = NInf"
| "fmul NInf PInf = NInf"

fun fdiv :: "float \<Rightarrow> float \<Rightarrow> float" where
  "fdiv (Fin x) (Fin y) =
     (if y = 0 then (if x = 0 then NaN else if 0 < x then PInf else NInf)
      else Fin (x / y))"
| "fdiv NaN _ = NaN"
| "fdiv _ NaN = NaN"
| "fdiv (Fin x) _ = Fin 0"
| "fdiv PInf (Fin y) = (if 0 \<le> y then PInf else NInf)"
| "fdiv NInf (Fin y) = (if 0 \<le> y then NInf else PInf)"
| "fdiv _ _ = NaN"

text \<open>The comparison \<^verbatim>\<open>a < b\<close>; it is false as soon as one side is not a number.\<close>

fun flt :: "float \<Rightarrow> float \<Rightarrow> bool" where
  "flt (Fin x) (Fin y) = (x < y)"
| "flt NaN _ = False"
| "flt _ NaN = False"
| "flt NInf NInf = False"
| "flt NInf _ = True"
| "flt PInf _ = False"
| "flt _ PInf = True"
| "flt _ NInf = False"

text \<open>The comparisons \<^verbatim>\<open>a > b\<close> and \<^verbatim>\<open>a <= b\<close>.\<close>

definition fgt :: "float \<Rightarrow> float \<Rightarrow> bool" where
  "fgt a c = flt c a"

fun fle :: "float \<Rightarrow> float \<Rightarrow> bool" where
  "fle NaN _ = False"
| "fle _ NaN = False"
| "fle a c = (\<not> flt c a)"

text \<open>Conversion of an integer count to \<^verbatim>\<open>float\<close>.\<close>

definition float_of_nat :: "nat \<Rightarrow> float" where
  "float_of_nat k = Fin (real k)"


fun isNaN :: "float \<Rightarrow> bool" where
  "isNaN NaN = True"
| "isNaN _ = False"

text \<open>A non-negative finite value: what the entries of a label distribution are.\<close>

fun nonNegative :: "float \<Rightarrow> bool" where
  "nonNegative (Fin x) = (0 \<le> x)"
| "nonNegative _ = False"

section \<open>Counted loops\<close>

text \<open>
  The loop \<^verbatim>\<open>for (i = i0; i < n; i++) body\<close> whose bound does not change while it
  runs: \<open>body i\<close> transforms the variables the loop writes.
\<close>

function for_loop :: "nat \<Rightarrow> nat \<Rightarrow> (nat \<Rightarrow> 's \<Rightarrow> 's) \<Rightarrow> 's \<Rightarrow> 's" where
  "for_loop i n body s = (if i < n then for_loop (i + 1) n body (body i s) else s)"
  by pat_completeness auto
termination
  by (relation "measure (\<lambda>(i, n, body, s). n - i)") auto

declare for_loop.simps [simp del]

section \<open>Colours and label distributions\<close>

type_synonym uint8 = "8 word"

text \<open>\<^verbatim>\<open>class Color\<close>: three channels; the default constructor gives white.\<close>

record Color =
  r :: uint8
  g :: uint8
  b :: uint8

definition Color_default :: Color where
  "Color_default = \<lparr>r = 255, g = 255, b = 255\<rparr>"

definition Color_rgb :: "uint8 \<Rightarrow> uint8 \<Rightarrow> uint8 \<Rightarrow> Color" where
  "Color_rgb r0 g0 b0 = \<lparr>r = r0, g = g0, b = b0\<rparr>"

text \<open>
  \<^verbatim>\<open>class Semantics\<close>: the label vector and the observation count
  (\<^verbatim>\<open>unsigned int\<close>, 32 bits).
\<close>

record Semantics =
  label :: "float list"
  count :: "32 word"

definition Semantics_default :: Semantics where
  "Semantics_default = \<lparr>label = [], count = 0\<rparr>"

definition Semantics_of_label :: "float list \<Rightarrow> Semantics" where
  "Semantics_of_label l = \<lparr>label = l, count = 1\<rparr>"

text \<open>\<^verbatim>\<open>std::vector::resize\<close>: truncate, or append value-initialised (zero) entries.\<close>

definition resize :: "float list \<Rightarrow> nat \<Rightarrow> float list" where
  "resize v k = (if k \<le> length v then take k v else v @ replicate (k - length v) (Fin 0))"

section \<open>Nodes\<close>

text \<open>
  \<^verbatim>\<open>class SemanticOcTreeNode\<close>.  The inherited occupancy \<^verbatim>\<open>value\<close> is a
  \<^verbatim>\<open>float\<close> on which this program does no arithmetic: it is kept as its 32-bit
  pattern.  The inherited \<^verbatim>\<open>children\<close> pointer is either null or an array of
  eight child pointers, each of which may be null; the array is a list of slots, and a
  slot beyond the end of the list reads as a null pointer.
\<close>

datatype SemanticOcTreeNode =
  Node (node_value: "32 word") (color: Color) (semantics: Semantics)
       (children: "SemanticOcTreeNode option list option")

definition child_at :: "SemanticOcTreeNode option list \<Rightarrow> nat \<Rightarrow> SemanticOcTreeNode option" where
  "child_at chs i = (if i < length chs then chs ! i else None)"

definition setColor :: "SemanticOcTreeNode \<Rightarrow> Color \<Rightarrow> SemanticOcTreeNode" where
  "setColor n c = Node (node_value n) c (semantics n) (children n)"

definition setSemantics :: "SemanticOcTreeNode \<Rightarrow> Semantics \<Rightarrow> SemanticOcTreeNode" where
  "setSemantics n s = Node (node_value n) (color n) s (children n)"

text \<open>The overload \<^verbatim>\<open>setSemantics(std::vector<float>&)\<close> replaces the label only.\<close>

definition setSemantics_label :: "SemanticOcTreeNode \<Rightarrow> float list \<Rightarrow> SemanticOcTreeNode" where
  "setSemantics_label n l = setSemantics n ((semantics n)\<lparr>label := l\<rparr>)"

definition setValue :: "SemanticOcTreeNode \<Rightarrow> 32 word \<Rightarrow> SemanticOcTreeNode" where
  "setValue n v = Node v (color n) (semantics n) (children n)"

text \<open>
  The constructors \<^verbatim>\<open>SemanticOcTreeNode()\<close> and
  \<^verbatim>\<open>SemanticOcTreeNode(int num_class)\<close>; the second one resizes the label vector
  of a default \<^verbatim>\<open>Semantics\<close>, which leaves \<open>num_class\<close> zero entries and the
  count 0.  The initial occupancy is a parameter, and the number of classes is a natural
  number: \<^verbatim>\<open>resize\<close> does not return on a negative one.
\<close>

definition SemanticOcTreeNode_new :: "32 word \<Rightarrow> SemanticOcTreeNode" where
  "SemanticOcTreeNode_new v = Node v Color_default Semantics_default None"

definition SemanticOcTreeNode_classes :: "32 word \<Rightarrow> nat \<Rightarrow> SemanticOcTreeNode" where
  "SemanticOcTreeNode_classes v num_class =
     Node v Color_default (Semantics_default\<lparr>label := resize [] num_class\<rparr>) None"

definition isColorSet :: "SemanticOcTreeNode \<Rightarrow> bool" where
  "isColorSet n = (r (color n) \<noteq> 255 \<or> g (color n) \<noteq> 255 \<or> b (color n) \<noteq> 255)"

definition isSemanticsSet :: "SemanticOcTreeNode \<Rightarrow> bool" where
  "isSemanticsSet n = (length (label (semantics n)) > 0)"

definition addSemanticsCount :: "SemanticOcTreeNode \<Rightarrow> SemanticOcTreeNode" where
  "addSemanticsCount n = setSemantics n ((semantics n)\<lparr>count := count (semantics n) + 1\<rparr>)"

definition resetSemanticsCount :: "SemanticOcTreeNode \<Rightarrow> SemanticOcTreeNode" where
  "resetSemanticsCount n = setSemantics n ((semantics n)\<lparr>count := 1\<rparr>)"

subsection \<open>\<^verbatim>\<open>getSemanticLabel\<close>\<close>

definition getSemanticLabel :: "SemanticOcTreeNode \<Rightarrow> int" where
  "getSemanticLabel n =
     (let lbl = label (semantics n) in
      fst (for_loop 0 (length lbl)
             (\<lambda>c (lab, mx). if fgt (lbl ! c) mx then (int c, lbl ! c) else (lab, mx))
             (0, Fin 0)))"

subsection \<open>\<^verbatim>\<open>normalizeSemantics\<close>\<close>

definition normalizeSemantics :: "SemanticOcTreeNode \<Rightarrow> SemanticOcTreeNode" where
  "normalizeSemantics n =
     (let lbl = label (semantics n);
          sum = for_loop 0 (length lbl) (\<lambda>i s. fadd s (lbl ! i)) (Fin 0)
      in if fgt sum (Fin 0)
         then setSemantics_label n
                (for_loop 0 (length lbl) (\<lambda>i l. l[i := fdiv (l ! i) sum]) lbl)
         else setSemantics_label n
                (for_loop 0 (length lbl)
                   (\<lambda>i l. l[i := fdiv (Fin 1) (float_of_nat (length l))]) lbl))"

text \<open>The sum of a sequence, accumulated from the left starting at zero.\<close>

definition label_sum :: "float list \<Rightarrow> float" where
  "label_sum xs = foldl fadd (Fin 0) xs"

subsection \<open>\<^verbatim>\<open>std::max_element\<close>\<close>

text \<open>
  The index that \<^verbatim>\<open>std::distance(v.begin(), std::max_element(v.begin(), v.end()))\<close>
  yields, after the C++ standard library: the iterator \<open>largest\<close> starts at the first
  element and moves to \<open>first\<close> whenever \<^verbatim>\<open>*largest < *first\<close>; on an empty range
  the end iterator, at distance 0, is returned.
\<close>

definition max_element :: "float list \<Rightarrow> nat" where
  "max_element v =
     (if length v = 0 then 0
      else for_loop 1 (length v)
             (\<lambda>first largest. if flt (v ! largest) (v ! first) then first else largest) 0)"

subsection \<open>The label-colour map\<close>

text \<open>
  \<^verbatim>\<open>std::unordered_map<int, std::tuple<uint8_t, uint8_t, uint8_t>>\<close> as an
  association list; \<^verbatim>\<open>size()\<close> counts the keys and \<^verbatim>\<open>at(k)\<close> throws
  \<^verbatim>\<open>std::out_of_range\<close> when the key is absent.
\<close>

type_synonym label2color_map = "(int \<times> uint8 \<times> uint8 \<times> uint8) list"

datatype error = OutOfRange

definition map_size :: "label2color_map \<Rightarrow> nat" where
  "map_size m = length (remdups (map fst m))"

definition map_at :: "label2color_map \<Rightarrow> int \<Rightarrow> error + uint8 \<times> uint8 \<times> uint8" where
  "map_at m k = (case map_of m k of None \<Rightarrow> Inl OutOfRange | Some v \<Rightarrow> Inr v)"

subsection \<open>\<^verbatim>\<open>getAverageChildColor\<close>\<close>

definition getAverageChildColor :: "SemanticOcTreeNode \<Rightarrow> Color" where
  "getAverageChildColor n =
     (let (mr, mg, mb, c) =
        (case children n of
           None \<Rightarrow> (0, 0, 0, 0)
         | Some chs \<Rightarrow>
             for_loop 0 8
               (\<lambda>i (mr, mg, mb, c).
                  case child_at chs i of
                    None \<Rightarrow> (mr, mg, mb, c)
                  | Some child \<Rightarrow>
                      if isColorSet child
                      then (mr + uint (r (color child)), mg + uint (g (color child)),
                            mb + uint (b (color child)), c + 1)
                      else (mr, mg, mb, c))
               (0 :: int, 0 :: int, 0 :: int, 0 :: int))
      in if c > 0
         then Color_rgb (word_of_int (mr div c)) (word_of_int (mg div c)) (word_of_int (mb div c))
         else Color_rgb 255 255 255)"

text \<open>
  The overload that takes the label-colour map.  Its first branch repeats the body of
  \<^verbatim>\<open>getAverageChildColor()\<close> word for word.
\<close>

definition getAverageChildColor_map :: "label2color_map \<Rightarrow> SemanticOcTreeNode \<Rightarrow> error + Color" where
  "getAverageChildColor_map l2c n =
     (if map_size l2c = 0 then
        (let (mr, mg, mb, c) =
           (case children n of
              None \<Rightarrow> (0, 0, 0, 0)
            | Some chs \<Rightarrow>
                for_loop 0 8
                  (\<lambda>i (mr, mg, mb, c).
                     case child_at chs i of
                       None \<Rightarrow> (mr, mg, mb, c)
                     | Some child \<Rightarrow>
                         if isColorSet child
                         then (mr + uint (r (color child)), mg + uint (g (color child)),
                               mb + uint (b (color child)), c + 1)
                         else (mr, mg, mb, c))
                  (0 :: int, 0 :: int, 0 :: int, 0 :: int))
         in if c > 0
            then Inr (Color_rgb (word_of_int (mr div c)) (word_of_int (mg div c))
                        (word_of_int (mb div c)))
            else Inr (Color_rgb 255 255 255))
      else
        (let distribution = label (semantics n) in
         if length distribution = 0 then Inr (Color_rgb 255 255 255)
         else
           (let max_prob_class = int (max_element distribution) in
            case map_at l2c max_prob_class of
              Inl e \<Rightarrow> Inl e
            | Inr (c0, c1, c2) \<Rightarrow> Inr (Color_rgb c0 c1 c2))))"

subsection \<open>\<^verbatim>\<open>getAverageChildSemantics\<close>\<close>

definition getAverageChildSemantics :: "SemanticOcTreeNode \<Rightarrow> Semantics" where
  "getAverageChildSemantics n =
     (let (mlabel, c) =
        (case children n of
           None \<Rightarrow> ([], 0)
         | Some chs \<Rightarrow>
             for_loop 0 8
               (\<lambda>i (mlabel, c).
                  case child_at chs i of
                    None \<Rightarrow> (mlabel, c)
                  | Some child \<Rightarrow>
                      if isSemanticsSet child
                      then (let clabel = label (semantics child);
                                mlabel1 = (if length mlabel < length clabel
                                           then resize mlabel (length clabel) else mlabel)
                            in (for_loop 0 (length clabel)
                                  (\<lambda>l m. m[l := fadd (m ! l) (clabel ! l)]) mlabel1,
                                c + 1))
                      else (mlabel, c))
               ([], 0 :: nat))
      in if c > 0
         then (let (mlabel1, sums') =
                     for_loop 0 (length mlabel)
                       (\<lambda>l (m, sums').
                          (let m1 = m[l := fdiv (m ! l) (float_of_nat c)]
                           in (m1, fadd sums' (m1 ! l))))
                       (mlabel, Fin 0)
               in Semantics_of_label (map (\<lambda>d. fdiv d sums') mlabel1))
         else Semantics_default)"

subsection \<open>The update methods of a node\<close>

definition updateColorChildren :: "SemanticOcTreeNode \<Rightarrow> SemanticOcTreeNode" where
  "updateColorChildren n = setColor n (getAverageChildColor n)"

definition updateColorChildren_map :: "label2color_map \<Rightarrow> SemanticOcTreeNode \<Rightarrow> error + SemanticOcTreeNode" where
  "updateColorChildren_map l2c n =
     (case getAverageChildColor_map l2c n of Inl e \<Rightarrow> Inl e | Inr c \<Rightarrow> Inr (setColor n c))"

definition updateSemanticsChildren :: "SemanticOcTreeNode \<Rightarrow> SemanticOcTreeNode" where
  "updateSemanticsChildren n = setSemantics n (getAverageChildSemantics n)"

subsection \<open>Serialisation\<close>

text \<open>
  An output stream is the list of the bytes written so far.  An input stream is the list
  of the bytes still to be read and its fail bit; \<^verbatim>\<open>read\<close> of \<open>k\<close> bytes delivers
  what is there and sets the fail bit when fewer than \<open>k\<close> bytes are left, and does
  nothing on a stream that has failed.  The bytes delivered overwrite the object from its
  start.  \<^verbatim>\<open>sizeof(value)\<close> is 4 and \<^verbatim>\<open>sizeof(Color)\<close> is 3; the bytes of the
  occupancy value are taken in little-endian order.
\<close>

record istream =
  buffer :: "uint8 list"
  failbit :: bool

definition istream_read :: "istream \<Rightarrow> nat \<Rightarrow> uint8 list \<times> istream" where
  "istream_read s k =
     (if failbit s then ([], s)
      else if k \<le> length (buffer s) then (take k (buffer s), s\<lparr>buffer := drop k (buffer s)\<rparr>)
      else (buffer s, s\<lparr>buffer := [], failbit := True\<rparr>))"

definition overwrite :: "uint8 list \<Rightarrow> uint8 list \<Rightarrow> uint8 list" where
  "overwrite old new = new @ drop (length new) old"

definition value_bytes :: "32 word \<Rightarrow> uint8 list" where
  "value_bytes v = [ucast v, ucast (drop_bit 8 v), ucast (drop_bit 16 v), ucast (drop_bit 24 v)]"

definition value_of_bytes :: "uint8 list \<Rightarrow> 32 word" where
  "value_of_bytes bs =
     ucast (bs ! 0) OR push_bit 8 (ucast (bs ! 1)) OR push_bit 16 (ucast (bs ! 2))
       OR push_bit 24 (ucast (bs ! 3))"

definition Color_bytes :: "Color \<Rightarrow> uint8 list" where
  "Color_bytes c = [r c, g c, b c]"

definition Color_of_bytes :: "uint8 list \<Rightarrow> Color" where
  "Color_of_bytes bs = \<lparr>r = bs ! 0, g = bs ! 1, b = bs ! 2\<rparr>"

definition writeData :: "SemanticOcTreeNode \<Rightarrow> uint8 list \<Rightarrow> uint8 list" where
  "writeData n s = (s @ value_bytes (node_value n)) @ Color_bytes (color n)"

definition readData :: "SemanticOcTreeNode \<Rightarrow> istream \<Rightarrow> SemanticOcTreeNode \<times> istream" where
  "readData n s =
     (let (vb, s1) = istream_read s 4;
          n1 = setValue n (value_of_bytes (overwrite (value_bytes (node_value n)) vb));
          (cb, s2) = istream_read s1 3;
          n2 = setColor n1 (Color_of_bytes (overwrite (Color_bytes (color n1)) cb))
      in (n2, s2))"

section \<open>The tree\<close>

text \<open>
  \<^verbatim>\<open>class SemanticOcTree\<close>: the members this program reads.  \<open>tree_depth\<close> is
  inherited from the base tree.
\<close>

record SemanticOcTree =
  label2color :: label2color_map
  num_class :: int
  tree_depth :: nat
  root :: "SemanticOcTreeNode option"

definition addColorMap :: "SemanticOcTree \<Rightarrow> label2color_map \<Rightarrow> SemanticOcTree" where
  "addColorMap t label2color_map = t\<lparr>label2color := label2color_map\<rparr>"

subsection \<open>Observation fusion\<close>

definition averageNodeColor ::
    "SemanticOcTreeNode option \<Rightarrow> uint8 \<Rightarrow> uint8 \<Rightarrow> uint8 \<Rightarrow> SemanticOcTreeNode option" where
  "averageNodeColor n r0 g0 b0 =
     (case n of
        None \<Rightarrow> None
      | Some nd \<Rightarrow>
          if isColorSet nd
          then (let prev_color = color nd in
                Some (setColor nd
                        (Color_rgb (word_of_int ((uint (r prev_color) + uint r0) div 2))
                                   (word_of_int ((uint (g prev_color) + uint g0) div 2))
                                   (word_of_int ((uint (b prev_color) + uint b0) div 2)))))
          else Some (setColor nd (Color_rgb r0 g0 b0)))"

definition averageNodeSemantics ::
    "SemanticOcTreeNode option \<Rightarrow> float list \<Rightarrow> SemanticOcTreeNode option" where
  "averageNodeSemantics n lbl =
     (case n of
        None \<Rightarrow> None
      | Some nd \<Rightarrow>
          if isSemanticsSet nd
          then (let prev_semantics = semantics nd;
                    prev1 = (if length (label prev_semantics) < length lbl
                             then prev_semantics\<lparr>label := resize (label prev_semantics) (length lbl)\<rparr>
                             else prev_semantics);
                    prev2 = for_loop 0 (length lbl)
                              (\<lambda>i p.
                                 (let p1 = p\<lparr>label := (label p)
                                             [i := fadd (fmul (label p ! i) (float_of_nat (unat (count p))))
                                                        (lbl ! i)]\<rparr>
                                  in p1\<lparr>label := (label p1)
                                          [i := fdiv (label p1 ! i)
                                                     (float_of_nat (unat (count p1 + 1)))]\<rparr>))
                              prev1
                in Some (addSemanticsCount (normalizeSemantics (setSemantics nd prev2))))
          else Some (resetSemanticsCount (normalizeSemantics (setSemantics_label nd lbl))))"

subsection \<open>The collaborators of the base tree\<close>

text \<open>
  Modelled from the spec: \<^verbatim>\<open>nodeChildExists\<close>, \<^verbatim>\<open>nodeHasChildren\<close>,
  \<^verbatim>\<open>getNodeChild\<close> and \<^verbatim>\<open>updateOccupancyChildren\<close> belong to the base tree and
  the base node, which are not part of these sources.  The spec gives them as a child
  existence test by slot index (0 to 7), child access by slot index, and an opaque
  occupancy aggregation; a node with children is an inner node, a node without is a
  leaf.  The occupancy aggregation is a parameter \<open>occ\<close> that computes the new
  occupancy value of a node and writes nothing else.
\<close>

definition nodeChildExists :: "SemanticOcTreeNode \<Rightarrow> nat \<Rightarrow> bool" where
  "nodeChildExists n i =
     (case children n of None \<Rightarrow> False | Some chs \<Rightarrow> child_at chs i \<noteq> None)"

definition nodeHasChildren :: "SemanticOcTreeNode \<Rightarrow> bool" where
  "nodeHasChildren n =
     (case children n of
        None \<Rightarrow> False
      | Some chs \<Rightarrow> for_loop 0 8 (\<lambda>i found. found \<or> child_at chs i \<noteq> None) False)"

definition updateOccupancyChildren ::
    "(SemanticOcTreeNode \<Rightarrow> 32 word) \<Rightarrow> SemanticOcTreeNode \<Rightarrow> SemanticOcTreeNode" where
  "updateOccupancyChildren occ n = setValue n (occ n)"

subsection \<open>The aggregation pass\<close>

text \<open>
  The loop over the child slots of \<^verbatim>\<open>updateInnerOccupancyRecurs\<close>: every child that
  exists is replaced by the result of the recursive call, in slot order, and the first
  exception ends the loop.  The depth is incremented only below \<open>tree_depth\<close>, so the
  \<^verbatim>\<open>unsigned int\<close> cannot wrap around and is a natural number here.
\<close>

fun forExistingChildren ::
    "(SemanticOcTreeNode \<Rightarrow> error + SemanticOcTreeNode) \<Rightarrow> SemanticOcTreeNode option list
       \<Rightarrow> error + SemanticOcTreeNode option list" where
  "forExistingChildren f [] = Inr []"
| "forExistingChildren f (None # cs) =
     (case forExistingChildren f cs of Inl e \<Rightarrow> Inl e | Inr cs1 \<Rightarrow> Inr (None # cs1))"
| "forExistingChildren f (Some c # cs) =
     (case f c of
        Inl e \<Rightarrow> Inl e
      | Inr c1 \<Rightarrow>
          (case forExistingChildren f cs of
             Inl e \<Rightarrow> Inl e
           | Inr cs1 \<Rightarrow> Inr (Some c1 # cs1)))"

lemma forExistingChildren_cong [fundef_cong]:
  "cs = ds \<Longrightarrow> (\<And>c. Some c \<in> set ds \<Longrightarrow> f c = h c)
     \<Longrightarrow> forExistingChildren f cs = forExistingChildren h ds"
proof (induction ds arbitrary: cs)
  case Nil
  then show ?case by simp
next
  case (Cons d ds)
  then show ?case by (cases d) (auto split: sum.splits)
qed

lemma size_child_take:
  assumes "Some c \<in> set (take k chs)"
  shows "size c < Suc (size_option (size_list (size_option size)) (Some chs))"
proof -
  from assms have "Some c \<in> set chs" by (rule in_set_takeD)
  then have "size_option size (Some c) \<le> size_list (size_option size) chs"
    by (simp add: size_list_estimation')
  then show ?thesis by simp
qed

function updateInnerOccupancyRecurs ::
    "(SemanticOcTreeNode \<Rightarrow> 32 word) \<Rightarrow> SemanticOcTree \<Rightarrow> SemanticOcTreeNode \<Rightarrow> nat
       \<Rightarrow> error + SemanticOcTreeNode" where
  "updateInnerOccupancyRecurs occ t (Node v col sem chn) depth =
     (if nodeHasChildren (Node v col sem chn) then
        (case (if depth < tree_depth t
               then (case chn of
                       None \<Rightarrow> Inr None
                     | Some chs \<Rightarrow>
                         (case forExistingChildren
                                 (\<lambda>child. updateInnerOccupancyRecurs occ t child (depth + 1))
                                 (take 8 chs) of
                            Inl e \<Rightarrow> Inl e
                          | Inr chs1 \<Rightarrow> Inr (Some (chs1 @ drop 8 chs))))
               else Inr chn) of
           Inl e \<Rightarrow> Inl e
         | Inr chn1 \<Rightarrow>
             (let node1 = updateOccupancyChildren occ (Node v col sem chn1);
                  node2 = updateSemanticsChildren node1
              in if map_size (label2color t) \<noteq> 0
                 then updateColorChildren_map (label2color t) node2
                 else Inr (updateColorChildren node2)))
      else updateColorChildren_map (label2color t) (Node v col sem chn))"
  by pat_completeness auto
termination
  by (relation "measure (\<lambda>(occ, t, n, depth). size n)") (auto dest: size_child_take)

declare updateInnerOccupancyRecurs.simps [simp del]

abbreviation labelOf :: "SemanticOcTreeNode \<Rightarrow> float list" where
  "labelOf n \<equiv> label (semantics n)"

section \<open>Notions used in the statements\<close>

text \<open>
  \<open>is_first_max xs i\<close>: \<open>i\<close> is an index of \<open>xs\<close>, no entry is greater than the
  entry at \<open>i\<close>, and every entry before \<open>i\<close> is smaller.
\<close>

definition is_first_max :: "float list \<Rightarrow> nat \<Rightarrow> bool" where
  "is_first_max xs i =
     (i < length xs \<and> list_all (\<lambda>x. \<not> flt (xs ! i) x) xs
      \<and> list_all (\<lambda>x. flt x (xs ! i)) (take i xs))"

text \<open>The loop bodies of \<^verbatim>\<open>getSemanticLabel\<close> and of \<^verbatim>\<open>std::max_element\<close>.\<close>

abbreviation label_step :: "float list \<Rightarrow> nat \<Rightarrow> int \<times> float \<Rightarrow> int \<times> float" where
  "label_step xs \<equiv> (\<lambda>c (lab, mx). if fgt (xs ! c) mx then (int c, xs ! c) else (lab, mx))"

abbreviation max_step :: "float list \<Rightarrow> nat \<Rightarrow> nat \<Rightarrow> nat" where
  "max_step v \<equiv> (\<lambda>first largest. if flt (v ! largest) (v ! first) then first else largest)"

text \<open>
  Normalisation and the running update in the words of the spec: the sum of all entries
  decides between dividing every entry by it and the uniform fallback; the running update
  grows the existing vector with zeros to the length of the observation and replaces every
  entry at an index of the observation by
  \<open>(existing[i] * count + observed[i]) / (count + 1)\<close>, the count and its successor
  being those of the 32-bit counter.
\<close>

definition normalized :: "float list \<Rightarrow> float list" where
  "normalized xs =
     (if fgt (label_sum xs) (Fin 0) then map (\<lambda>x. fdiv x (label_sum xs)) xs
      else replicate (length xs) (fdiv (Fin 1) (float_of_nat (length xs))))"

definition running_update :: "float list \<Rightarrow> 32 word \<Rightarrow> float list \<Rightarrow> float list" where
  "running_update old cnt obs =
     (let grown = old @ replicate (length obs - length old) (Fin 0)
      in map (\<lambda>i. if i < length obs
                   then fdiv (fadd (fmul (grown ! i) (float_of_nat (unat cnt))) (obs ! i))
                             (float_of_nat (unat (cnt + 1)))
                   else grown ! i)
           [0..<length grown])"

text \<open>The body of the loop of \<^verbatim>\<open>averageNodeSemantics\<close>, under a name.\<close>

definition fuse_step :: "float list \<Rightarrow> nat \<Rightarrow> Semantics \<Rightarrow> Semantics" where
  "fuse_step lbl =
     (\<lambda>i p. (let p1 = p\<lparr>label := (label p)
                          [i := fadd (fmul (label p ! i) (float_of_nat (unat (count p)))) (lbl ! i)]\<rparr>
             in p1\<lparr>label := (label p1)
                     [i := fdiv (label p1 ! i) (float_of_nat (unat (count p1 + 1)))]\<rparr>))"

text \<open>
  The children of a node that exist, in slot order, and what one contributing child adds to
  the accumulators of \<^verbatim>\<open>getAverageChildSemantics\<close> and of
  \<^verbatim>\<open>getAverageChildColor\<close>.
\<close>

definition existingChildren :: "SemanticOcTreeNode \<Rightarrow> SemanticOcTreeNode list" where
  "existingChildren n =
     (case children n of None \<Rightarrow> [] | Some chs \<Rightarrow> List.map_filter (child_at chs) [0..<8])"

definition addChildLabel :: "SemanticOcTreeNode \<Rightarrow> float list \<times> nat \<Rightarrow> float list \<times> nat" where
  "addChildLabel child =
     (\<lambda>(mlabel, c).
        (let clabel = label (semantics child);
             mlabel1 = (if length mlabel < length clabel
                        then resize mlabel (length clabel) else mlabel)
         in (for_loop 0 (length clabel)
               (\<lambda>l m. m[l := fadd (m ! l) (clabel ! l)]) mlabel1,
             c + 1)))"

definition addChildColor :: "SemanticOcTreeNode \<Rightarrow> int \<times> int \<times> int \<times> int \<Rightarrow> int \<times> int \<times> int \<times> int" where
  "addChildColor child =
     (\<lambda>(mr, mg, mb, c).
        (mr + uint (r (color child)), mg + uint (g (color child)),
         mb + uint (b (color child)), c + 1))"

section \<open>Loops in closed form\<close>

lemma for_loop_fold: "for_loop i n body s = fold body [i..<n] s"
proof (induction i n body s rule: for_loop.induct)
  case (1 i n body s)
  show ?case
  proof (cases "i < n")
    case True
    then have "[i..<n] = i # [i + 1..<n]" by (simp add: upt_conv_Cons)
    with True "1" show ?thesis by (simp add: for_loop.simps [of i])
  next
    case False
    then show ?thesis by (simp add: for_loop.simps [of i])
  qed
qed

lemma fold_index_update:
  assumes "n \<le> length xs"
    and "\<And>l i. length l = length xs \<Longrightarrow> i < n \<Longrightarrow> body i l = l[i := F i (l ! i)]"
  shows "fold body [0..<n] xs = map (\<lambda>i. F i (xs ! i)) [0..<n] @ drop n xs"
  using assms
proof (induction n)
  case 0
  then show ?case by simp
next
  case (Suc n)
  let ?A = "map (\<lambda>i. F i (xs ! i)) [0..<n]"
  have ih: "fold body [0..<n] xs = ?A @ drop n xs"
    using Suc by simp
  have len: "length (?A @ drop n xs) = length xs" using Suc.prems(1) by simp
  have dr: "drop n xs = xs ! n # drop (Suc n) xs"
    using Suc.prems(1) by (simp add: Cons_nth_drop_Suc)
  have "fold body [0..<Suc n] xs = body n (?A @ drop n xs)"
    by (simp add: ih)
  also have "\<dots> = (?A @ drop n xs)[n := F n ((?A @ drop n xs) ! n)]"
    using Suc.prems(2) [OF len, of n] by simp
  also have "\<dots> = ?A @ F n (xs ! n) # drop (Suc n) xs"
    by (simp add: dr list_update_append nth_append)
  finally show ?case by simp
qed

lemma for_loop_update:
  assumes "\<And>l i. length l = length xs \<Longrightarrow> i < length xs \<Longrightarrow> body i l = l[i := F (l ! i)]"
  shows "for_loop 0 (length xs) body xs = map F xs"
proof -
  have "fold body [0..<length xs] xs = map (\<lambda>i. F (xs ! i)) [0..<length xs] @ drop (length xs) xs"
    by (rule fold_index_update) (use assms in auto)
  moreover have "map (\<lambda>i. F (xs ! i)) [0..<length xs] = map F xs"
    by (rule nth_equalityI) simp_all
  ultimately show ?thesis by (simp add: for_loop_fold)
qed

lemma fold_index_sum:
  "fold (\<lambda>i s. f s (xs ! i)) [0..<length xs] a = foldl f a xs"
proof (induction xs rule: rev_induct)
  case Nil
  then show ?case by simp
next
  case (snoc x xs)
  have "fold (\<lambda>i s. f s ((xs @ [x]) ! i)) [0..<length xs] a = fold (\<lambda>i s. f s (xs ! i)) [0..<length xs] a"
    by (rule fold_cong) (auto simp: nth_append)
  then show ?case using snoc by (simp add: nth_append)
qed

lemma for_loop_sum: "for_loop 0 (length xs) (\<lambda>i s. fadd s (xs ! i)) (Fin 0) = label_sum xs"
  by (simp add: for_loop_fold fold_index_sum label_sum_def)

section \<open>Normalisation\<close>

lemma normalizeSemantics_label:
  "labelOf (normalizeSemantics n) =
     (if fgt (label_sum (labelOf n)) (Fin 0)
      then map (\<lambda>x. fdiv x (label_sum (labelOf n))) (labelOf n)
      else replicate (length (labelOf n)) (fdiv (Fin 1) (float_of_nat (length (labelOf n)))))"
proof -
  let ?xs = "labelOf n"
  have a: "for_loop 0 (length ?xs) (\<lambda>i l. l[i := fdiv (l ! i) s]) ?xs = map (\<lambda>x. fdiv x s) ?xs" for s
    by (rule for_loop_update) simp
  have b: "for_loop 0 (length ?xs) (\<lambda>i l. l[i := fdiv (Fin 1) (float_of_nat (length l))]) ?xs
             = map (\<lambda>x. fdiv (Fin 1) (float_of_nat (length ?xs))) ?xs"
    by (rule for_loop_update) simp
  show ?thesis
    by (simp add: normalizeSemantics_def Let_def for_loop_sum a b setSemantics_label_def
        setSemantics_def map_replicate_const)
qed

lemma normalizeSemantics_others:
  "count (semantics (normalizeSemantics n)) = count (semantics n)"
  "color (normalizeSemantics n) = color n"
  "children (normalizeSemantics n) = children n"
  "node_value (normalizeSemantics n) = node_value n"
  by (simp_all add: normalizeSemantics_def Let_def setSemantics_label_def setSemantics_def)

lemma normalizeSemantics_closed:
  "normalizeSemantics n = setSemantics_label n (normalized (labelOf n))"
  using normalizeSemantics_label [of n] normalizeSemantics_others [of n]
  by (cases "normalizeSemantics n"; cases n)
     (auto simp: normalized_def setSemantics_label_def setSemantics_def)









section \<open>The most probable label\<close>

lemma is_first_max_iff:
  "is_first_max xs i \<longleftrightarrow>
     i < length xs \<and> (\<forall>j < length xs. \<not> flt (xs ! i) (xs ! j)) \<and> (\<forall>j < i. flt (xs ! j) (xs ! i))"
  by (auto simp: is_first_max_def list_all_length)

lemma flt_trans: "flt a c \<Longrightarrow> flt c d \<Longrightarrow> flt a d"
  by (cases a; cases c; cases d) auto

lemma flt_below: "\<not> isNaN c \<Longrightarrow> \<not> flt a c \<Longrightarrow> flt a d \<Longrightarrow> flt c d"
  by (cases a; cases c; cases d) auto

lemma getSemanticLabel_fold:
  "getSemanticLabel n = fst (fold (label_step (labelOf n)) [0..<length (labelOf n)] (0, Fin 0))"
  by (simp add: getSemanticLabel_def Let_def for_loop_fold)

lemma label_scan_nonpositive:
  assumes "k \<le> length xs" and "\<forall>x \<in> set xs. \<not> fgt x (Fin 0)"
  shows "fold (label_step xs) [0..<k] (0, Fin 0) = (0, Fin 0)"
  using assms(1)
proof (induction k)
  case 0
  then show ?case by simp
next
  case (Suc k)
  then have "xs ! k \<in> set xs" by simp
  with assms(2) have "\<not> fgt (xs ! k) (Fin 0)" by blast
  with Suc show ?case by simp
qed

lemma label_scan_range:
  "0 \<le> fst (fold (label_step xs) [0..<k] (0, Fin 0))
   \<and> (fst (fold (label_step xs) [0..<k] (0, Fin 0)) = 0
        \<or> fst (fold (label_step xs) [0..<k] (0, Fin 0)) < int k)"
proof (induction k)
  case 0
  then show ?case by simp
next
  case (Suc k)
  obtain lab mx where st: "fold (label_step xs) [0..<k] (0, Fin 0) = (lab, mx)"
    by (cases "fold (label_step xs) [0..<k] (0, Fin 0)")
  with Suc show ?case by auto
qed

text \<open>
  Claim C10.  \<^verbatim>\<open>getSemanticLabel\<close> returns on every label vector, and what it returns
  is 0 or an index of the vector; on the empty vector, and on a vector whose entries are
  all at most 0, it returns 0.
\<close>

theorem getSemanticLabel_total:
  "0 \<le> getSemanticLabel n
   \<and> (getSemanticLabel n = 0 \<or> getSemanticLabel n < int (length (labelOf n)))
   \<and> (labelOf n = [] \<longrightarrow> getSemanticLabel n = 0)
   \<and> (list_all (\<lambda>x. fle x (Fin 0)) (labelOf n) \<longrightarrow> getSemanticLabel n = 0)"
proof (intro conjI impI)
  show "0 \<le> getSemanticLabel n"
    using label_scan_range [of "labelOf n" "length (labelOf n)"]
    by (simp add: getSemanticLabel_fold)
  show "getSemanticLabel n = 0 \<or> getSemanticLabel n < int (length (labelOf n))"
    using label_scan_range [of "labelOf n" "length (labelOf n)"]
    by (simp add: getSemanticLabel_fold)
  show "getSemanticLabel n = 0" if "labelOf n = []"
    using that by (simp add: getSemanticLabel_fold)
  show "getSemanticLabel n = 0" if a: "list_all (\<lambda>x. fle x (Fin 0)) (labelOf n)"
  proof -
    have "\<not> fgt x (Fin 0)" if "x \<in> set (labelOf n)" for x
    proof -
      from a that have "fle x (Fin 0)" by (simp add: list_all_iff)
      then show ?thesis by (cases x) (auto simp: fgt_def)
    qed
    then have "fold (label_step (labelOf n)) [0..<length (labelOf n)] (0, Fin 0) = (0, Fin 0)"
      by (intro label_scan_nonpositive) auto
    then show ?thesis by (simp add: getSemanticLabel_fold)
  qed
qed

theorem getSemanticLabel_total_witness:
  "getSemanticLabel (Node 0 Color_default \<lparr>label = [], count = 0\<rparr> None) = 0
   \<and> getSemanticLabel (Node 0 Color_default \<lparr>label = [Fin (- 1), Fin 0, Fin (- (1/2))], count = 1\<rparr> None) = 0"
  using getSemanticLabel_total [of "Node 0 Color_default \<lparr>label = [], count = 0\<rparr> None"]
    getSemanticLabel_total [of "Node 0 Color_default \<lparr>label = [Fin (- 1), Fin 0, Fin (- (1/2))], count = 1\<rparr> None"]
  by simp

lemma label_scan_max:
  assumes "k \<le> length xs" and "list_all nonNegative xs"
  shows "\<exists>lab m. fold (label_step xs) [0..<k] (0, Fin 0) = (lab, Fin m) \<and> 0 \<le> m
           \<and> (\<forall>j < k. \<not> flt (Fin m) (xs ! j))
           \<and> ((m = 0 \<and> lab = 0) \<or>
               (0 \<le> lab \<and> nat lab < k \<and> xs ! nat lab = Fin m \<and> (\<forall>j < nat lab. flt (xs ! j) (Fin m))))"
  using assms(1)
proof (induction k)
  case 0
  then show ?case by simp
next
  case (Suc k)
  then obtain lab m where st: "fold (label_step xs) [0..<k] (0, Fin 0) = (lab, Fin m)"
    and m0: "0 \<le> m" and le: "\<forall>j < k. \<not> flt (Fin m) (xs ! j)"
    and first: "(m = 0 \<and> lab = 0) \<or>
               (0 \<le> lab \<and> nat lab < k \<and> xs ! nat lab = Fin m \<and> (\<forall>j < nat lab. flt (xs ! j) (Fin m)))"
    by auto
  from Suc.prems assms(2) have "nonNegative (xs ! k)" by (simp add: list_all_length)
  then obtain v where v: "xs ! k = Fin v" and v0: "0 \<le> v" by (cases "xs ! k") auto
  have nn: "\<exists>w. xs ! j = Fin w \<and> 0 \<le> w" if "j < k" for j
  proof -
    from that Suc.prems assms(2) have "nonNegative (xs ! j)" by (simp add: list_all_length)
    then show ?thesis by (cases "xs ! j") auto
  qed
  show ?case
  proof (cases "m < v")
    case True
    have "\<forall>j < Suc k. \<not> flt (Fin v) (xs ! j)"
    proof (intro allI impI)
      fix j assume "j < Suc k"
      show "\<not> flt (Fin v) (xs ! j)"
      proof (cases "j = k")
        case True
        then show ?thesis by (simp add: v)
      next
        case False
        with \<open>j < Suc k\<close> have jk: "j < k" by simp
        then obtain w where w: "xs ! j = Fin w" using nn by blast
        with le jk have "\<not> m < w" by auto
        with True show ?thesis by (simp add: w)
      qed
    qed
    moreover have "\<forall>j < k. flt (xs ! j) (Fin v)"
    proof (intro allI impI)
      fix j assume jk: "j < k"
      then obtain w where w: "xs ! j = Fin w" using nn by blast
      with le jk have "\<not> m < w" by auto
      with True show "flt (xs ! j) (Fin v)" by (simp add: w)
    qed
    moreover have "fold (label_step xs) [0..<Suc k] (0, Fin 0) = label_step xs k (lab, Fin m)"
      by (simp add: st)
    then have "fold (label_step xs) [0..<Suc k] (0, Fin 0) = (int k, Fin v)"
      using True by (simp add: v fgt_def)
    ultimately have "fold (label_step xs) [0..<Suc k] (0, Fin 0) = (int k, Fin v) \<and> 0 \<le> v
           \<and> (\<forall>j < Suc k. \<not> flt (Fin v) (xs ! j))
           \<and> ((v = 0 \<and> int k = 0) \<or>
               (0 \<le> int k \<and> nat (int k) < Suc k \<and> xs ! nat (int k) = Fin v
                \<and> (\<forall>j < nat (int k). flt (xs ! j) (Fin v))))"
      using v0 v by simp
    then show ?thesis by blast
  next
    case False
    have "fold (label_step xs) [0..<Suc k] (0, Fin 0) = label_step xs k (lab, Fin m)"
      by (simp add: st)
    then have "fold (label_step xs) [0..<Suc k] (0, Fin 0) = (lab, Fin m)"
      using False by (simp add: v fgt_def)
    moreover have "\<forall>j < Suc k. \<not> flt (Fin m) (xs ! j)"
      using le False by (auto simp: less_Suc_eq v)
    moreover have "(m = 0 \<and> lab = 0) \<or>
               (0 \<le> lab \<and> nat lab < Suc k \<and> xs ! nat lab = Fin m \<and> (\<forall>j < nat lab. flt (xs ! j) (Fin m)))"
      using first by auto
    ultimately show ?thesis using m0 by blast
  qed
qed

lemma getSemanticLabel_first_max:
  assumes "labelOf n \<noteq> []" and "list_all nonNegative (labelOf n)"
  shows "is_first_max (labelOf n) (nat (getSemanticLabel n))"
proof -
  let ?xs = "labelOf n"
  from label_scan_max [OF le_refl assms(2)]
  obtain lab m where st: "fold (label_step ?xs) [0..<length ?xs] (0, Fin 0) = (lab, Fin m)"
    and m0: "0 \<le> m" and le: "\<forall>j < length ?xs. \<not> flt (Fin m) (?xs ! j)"
    and first: "(m = 0 \<and> lab = 0) \<or>
       (0 \<le> lab \<and> nat lab < length ?xs \<and> ?xs ! nat lab = Fin m \<and> (\<forall>j < nat lab. flt (?xs ! j) (Fin m)))"
    by blast
  have res: "getSemanticLabel n = lab" by (simp add: getSemanticLabel_fold st)
  from first show ?thesis
  proof
    assume z: "m = 0 \<and> lab = 0"
    from assms(1) have pos: "0 < length ?xs" by simp
    from assms(2) pos have "nonNegative (?xs ! 0)" by (simp add: list_all_length)
    then obtain w where w: "?xs ! 0 = Fin w" "0 \<le> w" by (cases "?xs ! 0") auto
    with le pos z have "w = 0" by force
    with w le z pos show ?thesis by (simp add: is_first_max_iff res)
  next
    assume "0 \<le> lab \<and> nat lab < length ?xs \<and> ?xs ! nat lab = Fin m \<and> (\<forall>j < nat lab. flt (?xs ! j) (Fin m))"
    with le show ?thesis by (simp add: is_first_max_iff res)
  qed
qed

lemma max_scan:
  assumes "Suc k \<le> length xs" and "list_all (\<lambda>x. \<not> isNaN x) xs"
  shows "fold (max_step xs) [1..<Suc k] 0 \<le> k
         \<and> (\<forall>j < Suc k. \<not> flt (xs ! fold (max_step xs) [1..<Suc k] 0) (xs ! j))
         \<and> (\<forall>j < fold (max_step xs) [1..<Suc k] 0. flt (xs ! j) (xs ! fold (max_step xs) [1..<Suc k] 0))"
  using assms(1)
proof (induction k)
  case 0
  then show ?case by (cases "xs ! 0") auto
next
  case (Suc k)
  let ?l = "fold (max_step xs) [1..<Suc k] 0"
  from Suc have lk: "?l \<le> k" and mx: "\<forall>j < Suc k. \<not> flt (xs ! ?l) (xs ! j)"
    and fst: "\<forall>j < ?l. flt (xs ! j) (xs ! ?l)" by auto
  have step: "fold (max_step xs) [1..<Suc (Suc k)] 0 = max_step xs (Suc k) ?l"
    by simp
  have nan: "\<not> isNaN (xs ! j)" if "j < Suc (Suc k)" for j
    using that Suc.prems assms(2) by (simp add: list_all_length)
  show ?case
  proof (cases "flt (xs ! ?l) (xs ! Suc k)")
    case True
    have a: "\<not> flt (xs ! Suc k) (xs ! j)" if "j < Suc (Suc k)" for j
    proof (cases "j = Suc k")
      case True
      then show ?thesis by (cases "xs ! Suc k") auto
    next
      case False
      with that have "j < Suc k" by simp
      with mx have "\<not> flt (xs ! ?l) (xs ! j)" by blast
      with True show ?thesis using flt_trans by blast
    qed
    have b: "flt (xs ! j) (xs ! Suc k)" if "j < Suc k" for j
    proof -
      from that mx have "\<not> flt (xs ! ?l) (xs ! j)" by blast
      moreover have "\<not> isNaN (xs ! j)" using that nan by simp
      ultimately show ?thesis using True flt_below by blast
    qed
    from True a b show ?thesis by (simp only: step) simp
  next
    case False
    with lk mx fst show ?thesis by (simp only: step) (auto simp: less_Suc_eq)
  qed
qed

lemma max_element_first_max:
  assumes "xs \<noteq> []" and "list_all (\<lambda>x. \<not> isNaN x) xs"
  shows "is_first_max xs (max_element xs)"
proof -
  from assms(1) obtain k where k: "length xs = Suc k" by (cases xs) auto
  then have "Suc k \<le> length xs" by simp
  note sc = max_scan [OF this assms(2)]
  have me: "max_element xs = fold (max_step xs) [1..<Suc k] 0"
    using k by (simp add: max_element_def for_loop_fold del: upt_Suc)
  from sc k show ?thesis
    unfolding is_first_max_iff me by (auto simp del: upt_Suc)
qed

lemma nonNegative_not_NaN: "list_all nonNegative xs \<Longrightarrow> list_all (\<lambda>x. \<not> isNaN x) xs"
  by (induction xs) (auto elim: nonNegative.elims)

lemma getSemanticLabel_example:
  "getSemanticLabel
     (Node 0 Color_default \<lparr>label = [Fin (4/10), Fin (4/10), Fin (2/10)], count = 1\<rparr> None) = 0"
  by (simp add: getSemanticLabel_def for_loop.simps fgt_def)

lemma max_element_example: "max_element [Fin (4/10), Fin (4/10), Fin (2/10)] = 0"
  by (simp add: max_element_def for_loop.simps)

text \<open>
  Claim C8.  On a non-empty label distribution (entries finite and not negative)
  \<^verbatim>\<open>getSemanticLabel\<close> returns the index of the largest entry, the lowest such index
  when several entries are largest; \<^verbatim>\<open>std::max_element\<close>, which the colour lookup
  uses, does so on every non-empty vector without a not-a-number entry.  On
  \<open>[0.4, 0.4, 0.2]\<close> both return 0.
\<close>

theorem argmax_first_largest:
  "(labelOf n \<noteq> [] \<and> list_all nonNegative (labelOf n) \<longrightarrow>
      0 \<le> getSemanticLabel n \<and> is_first_max (labelOf n) (nat (getSemanticLabel n)))
   \<and> (xs \<noteq> [] \<and> list_all (\<lambda>x. \<not> isNaN x) xs \<longrightarrow> is_first_max xs (max_element xs))
   \<and> getSemanticLabel
        (Node 0 Color_default \<lparr>label = [Fin (4/10), Fin (4/10), Fin (2/10)], count = 1\<rparr> None) = 0
   \<and> max_element [Fin (4/10), Fin (4/10), Fin (2/10)] = 0"
proof (intro conjI impI)
  assume a: "labelOf n \<noteq> [] \<and> list_all nonNegative (labelOf n)"
  show "0 \<le> getSemanticLabel n"
    using label_scan_range [of "labelOf n" "length (labelOf n)"]
    by (simp add: getSemanticLabel_fold)
  from a show "is_first_max (labelOf n) (nat (getSemanticLabel n))"
    by (simp add: getSemanticLabel_first_max)
next
  assume "xs \<noteq> [] \<and> list_all (\<lambda>x. \<not> isNaN x) xs"
  then show "is_first_max xs (max_element xs)"
    by (simp add: max_element_first_max)
qed (rule getSemanticLabel_example max_element_example)+

theorem argmax_first_largest_witness:
  "getSemanticLabel
     (Node 0 Color_default \<lparr>label = [Fin (1/10), Fin (6/10), Fin (3/10)], count = 1\<rparr> None) = 1
   \<and> is_first_max [Fin (1/10), Fin (6/10), Fin (3/10)] 1
   \<and> max_element [Fin (- 2), Fin (- 1), Fin (- 1)] = 1
   \<and> is_first_max [Fin (- 2), Fin (- 1), Fin (- 1)] (max_element [Fin (- 2), Fin (- 1), Fin (- 1)])"
  using argmax_first_largest
    [of "Node 0 Color_default \<lparr>label = [Fin (1/10), Fin (6/10), Fin (3/10)], count = 1\<rparr> None"
        "[Fin (- 2), Fin (- 1), Fin (- 1)]"]
  by (simp add: getSemanticLabel_def max_element_def for_loop.simps fgt_def)

section \<open>Colour fusion\<close>

lemma mean_byte:
  "unat (word_of_int ((uint (a :: uint8) + uint (c :: uint8)) div 2) :: uint8) = (unat a + unat c) div 2"
proof -
  have a: "uint a < 256" using uint_bounded [of a] by simp
  have c: "uint c < 256" using uint_bounded [of c] by simp
  have "0 \<le> uint a" "0 \<le> uint c" by simp_all
  with a c have bnd: "0 \<le> (uint a + uint c) div 2" "(uint a + uint c) div 2 < 256" by linarith+
  then have "uint (word_of_int ((uint a + uint c) div 2) :: uint8) = (uint a + uint c) div 2"
    by (simp add: uint_word_of_int)
  then have "unat (word_of_int ((uint a + uint c) div 2) :: uint8) = nat ((uint a + uint c) div 2)"
    by (simp add: unat_eq_nat_uint)
  also have "\<dots> = (nat (uint a) + nat (uint c)) div 2"
    by (simp add: nat_div_distrib nat_add_distrib)
  finally show ?thesis by simp
qed

lemma isColorSet_iff: "isColorSet n \<longleftrightarrow> color n \<noteq> Color_default"
  by (cases "color n") (auto simp: isColorSet_def Color_default_def)

text \<open>
  Claim C5.  \<^verbatim>\<open>averageNodeColor\<close> on a null pointer does nothing.  On a node it
  changes the colour only: when the colour of the node is set, that is, differs from
  white, every channel becomes the sum of the old and the observed channel divided by 2,
  rounded down, whatever the observation count; when it is not set, the colour becomes the
  observed colour.  An unset node blended with (10, 20, 30) gets (10, 20, 30), and
  (10, 20, 30) blended with (20, 20, 20) gives (15, 20, 25).
\<close>

theorem averageNodeColor_blend:
  "averageNodeColor None r0 g0 b0 = None
   \<and> (\<exists>n1. averageNodeColor (Some n) r0 g0 b0 = Some n1
          \<and> node_value n1 = node_value n \<and> semantics n1 = semantics n \<and> children n1 = children n
          \<and> (isColorSet n \<longrightarrow>
                unat (r (color n1)) = (unat (r (color n)) + unat r0) div 2
              \<and> unat (g (color n1)) = (unat (g (color n)) + unat g0) div 2
              \<and> unat (b (color n1)) = (unat (b (color n)) + unat b0) div 2)
          \<and> (\<not> isColorSet n \<longrightarrow> color n1 = \<lparr>r = r0, g = g0, b = b0\<rparr>))
   \<and> (isColorSet n \<longleftrightarrow> color n \<noteq> \<lparr>r = 255, g = 255, b = 255\<rparr>)
   \<and> averageNodeColor (Some (Node v \<lparr>r = 255, g = 255, b = 255\<rparr> s ch)) 10 20 30
        = Some (Node v \<lparr>r = 10, g = 20, b = 30\<rparr> s ch)
   \<and> averageNodeColor (Some (Node v \<lparr>r = 10, g = 20, b = 30\<rparr> s ch)) 20 20 20
        = Some (Node v \<lparr>r = 15, g = 20, b = 25\<rparr> s ch)"
proof (intro conjI)
  show "averageNodeColor None r0 g0 b0 = None" by (simp add: averageNodeColor_def)
  show "\<exists>n1. averageNodeColor (Some n) r0 g0 b0 = Some n1
          \<and> node_value n1 = node_value n \<and> semantics n1 = semantics n \<and> children n1 = children n
          \<and> (isColorSet n \<longrightarrow>
                unat (r (color n1)) = (unat (r (color n)) + unat r0) div 2
              \<and> unat (g (color n1)) = (unat (g (color n)) + unat g0) div 2
              \<and> unat (b (color n1)) = (unat (b (color n)) + unat b0) div 2)
          \<and> (\<not> isColorSet n \<longrightarrow> color n1 = \<lparr>r = r0, g = g0, b = b0\<rparr>)"
    by (simp add: averageNodeColor_def Let_def setColor_def Color_rgb_def mean_byte)
  show "isColorSet n \<longleftrightarrow> color n \<noteq> \<lparr>r = 255, g = 255, b = 255\<rparr>"
    using isColorSet_iff [of n] by (simp add: Color_default_def)
  show "averageNodeColor (Some (Node v \<lparr>r = 255, g = 255, b = 255\<rparr> s ch)) 10 20 30
        = Some (Node v \<lparr>r = 10, g = 20, b = 30\<rparr> s ch)"
    by (simp add: averageNodeColor_def isColorSet_def setColor_def Color_rgb_def)
  show "averageNodeColor (Some (Node v \<lparr>r = 10, g = 20, b = 30\<rparr> s ch)) 20 20 20
        = Some (Node v \<lparr>r = 15, g = 20, b = 25\<rparr> s ch)"
    by (simp add: averageNodeColor_def isColorSet_def setColor_def Color_rgb_def Let_def)
qed

theorem averageNodeColor_blend_witness:
  "averageNodeColor (Some (Node 0 \<lparr>r = 11, g = 20, b = 255\<rparr> Semantics_default None)) 20 21 254
     = Some (Node 0 \<lparr>r = 15, g = 20, b = 254\<rparr> Semantics_default None)"
proof -
  obtain n1 where a: "averageNodeColor (Some (Node 0 \<lparr>r = 11, g = 20, b = 255\<rparr> Semantics_default None)) 20 21 254 = Some n1"
    and v: "node_value n1 = 0" "semantics n1 = Semantics_default" "children n1 = None"
    and c: "unat (r (color n1)) = 15" "unat (g (color n1)) = 20" "unat (b (color n1)) = 254"
    using averageNodeColor_blend [of 20 21 254 "Node 0 \<lparr>r = 11, g = 20, b = 255\<rparr> Semantics_default None" 0 Semantics_default None]
    by (auto simp: isColorSet_def)
  from c have "unat (r (color n1)) = unat (15 :: uint8)" "unat (g (color n1)) = unat (20 :: uint8)"
    "unat (b (color n1)) = unat (254 :: uint8)" by simp_all
  then have "r (color n1) = 15" "g (color n1) = 20" "b (color n1) = 254"
    by (simp_all only: word_unat_eq_iff)
  then have "color n1 = \<lparr>r = 15, g = 20, b = 254\<rparr>" by (cases "color n1") simp
  with a v show ?thesis by (cases n1) simp
qed

section \<open>Serialisation round trip\<close>

lemma value_bytes_roundtrip: "value_of_bytes (value_bytes v) = v"
proof (rule bit_word_eqI)
  fix k
  assume "k < LENGTH(32)"
  then consider "k < 8" | "8 \<le> k" "k < 16" | "16 \<le> k" "k < 24" | "24 \<le> k" "k < 32"
    by fastforce
  then show "bit (value_of_bytes (value_bytes v)) k = bit v k"
  proof cases
    case 1
    then show ?thesis by (simp add: value_of_bytes_def value_bytes_def bit_simps)
  next
    case 2
    then have "k - 8 < 8" by arith
    with 2 show ?thesis by (simp add: value_of_bytes_def value_bytes_def bit_simps)
  next
    case 3
    then have "\<not> k - 8 < 8" "k - 16 < 8" by arith+
    with 3 show ?thesis by (simp add: value_of_bytes_def value_bytes_def bit_simps)
  next
    case 4
    then have "\<not> k - 8 < 8" "\<not> k - 16 < 8" "k - 24 < 8" by arith+
    with 4 show ?thesis by (simp add: value_of_bytes_def value_bytes_def bit_simps)
  qed
qed

text \<open>
  Claim C7.  \<^verbatim>\<open>writeData\<close> appends the four bytes of the occupancy value and then
  the three colour channels, with no length prefix and nothing of the semantics: the bytes
  written do not depend on the semantics of the node.  \<^verbatim>\<open>readData\<close> on these bytes,
  into any node \<open>m\<close>, gives the occupancy value and the colour of the node written, and
  leaves the semantics of \<open>m\<close> as they were; the rest of the stream is untouched.
\<close>

theorem write_read_roundtrip:
  "readData m \<lparr>buffer = writeData n [] @ rest, failbit = False\<rparr>
     = (Node (node_value n) (color n) (semantics m) (children m), \<lparr>buffer = rest, failbit = False\<rparr>)
   \<and> writeData n s = s @ value_bytes (node_value n) @ [r (color n), g (color n), b (color n)]
   \<and> length (value_bytes (node_value n)) = 4
   \<and> writeData (setSemantics n sem) s = writeData n s"
  by (simp add: readData_def writeData_def istream_read_def overwrite_def value_bytes_roundtrip
      Color_bytes_def Color_of_bytes_def setValue_def setColor_def setSemantics_def Let_def
      value_bytes_def [THEN arg_cong [where f = length]])

section \<open>Semantics fusion\<close>

lemma fuse_loop:
  assumes "k \<le> length (label p)"
  shows "fold (fuse_step obs) [0..<k] p =
           p\<lparr>label := map (\<lambda>i. fdiv (fadd (fmul (label p ! i) (float_of_nat (unat (count p)))) (obs ! i))
                                     (float_of_nat (unat (count p + 1)))) [0..<k]
                        @ drop k (label p)\<rparr>"
  using assms
proof (induction k)
  case 0
  then show ?case by simp
next
  case (Suc k)
  let ?F = "\<lambda>i. fdiv (fadd (fmul (label p ! i) (float_of_nat (unat (count p)))) (obs ! i))
                     (float_of_nat (unat (count p + 1)))"
  let ?A = "map ?F [0..<k]"
  let ?q = "p\<lparr>label := ?A @ drop k (label p)\<rparr>"
  have ih: "fold (fuse_step obs) [0..<k] p = ?q" using Suc by simp
  have dr: "drop k (label p) = label p ! k # drop (Suc k) (label p)"
    using Suc.prems by (simp add: Cons_nth_drop_Suc)
  have "fold (fuse_step obs) [0..<Suc k] p = fuse_step obs k ?q"
    by (simp add: ih)
  also have "\<dots> = p\<lparr>label := ?A @ ?F k # drop (Suc k) (label p)\<rparr>"
    by (simp add: fuse_step_def Let_def dr list_update_append nth_append)
  finally show ?case by simp
qed

lemma fused_closed:
  assumes "length obs \<le> length grown"
  shows "map (\<lambda>i. F (grown ! i) (obs ! i)) [0..<length obs] @ drop (length obs) grown
         = map (\<lambda>i. if i < length obs then F (grown ! i) (obs ! i) else grown ! i) [0..<length grown]"
  using assms by (intro nth_equalityI) (auto simp: nth_append)

lemma grown_eq:
  "label (if length (label s) < length obs then s\<lparr>label := resize (label s) (length obs)\<rparr> else s)
     = label s @ replicate (length obs - length (label s)) (Fin 0)"
  by (simp add: resize_def)

lemma grown_count:
  "count (if length (label s) < length obs then s\<lparr>label := resize (label s) (length obs)\<rparr> else s)
     = count s"
  by simp

text \<open>
  Claim C3.  \<^verbatim>\<open>averageNodeSemantics\<close> on a null pointer does nothing.  On a node whose
  semantics are set, the label vector becomes the normalised running update of the old
  vector with the observation, every entry at an index \<open>i\<close> of the observation being
  \<open>(existing[i] * count + observed[i]) / (count + 1)\<close> before normalisation, and the
  count is incremented by 1.  On a node whose semantics are unset, the label vector becomes
  the normalised observation and the count becomes 1.  Fusing \<open>([0.5, 0.5], 1)\<close> with
  \<open>[1.0, 0.0]\<close> gives \<open>([0.75, 0.25], 2)\<close>.
\<close>

theorem averageNodeSemantics_fusion:
  "averageNodeSemantics None obs = None
   \<and> (isSemanticsSet n \<longrightarrow>
        averageNodeSemantics (Some n) obs =
          Some (setSemantics n
                  \<lparr>label = normalized (running_update (labelOf n) (count (semantics n)) obs),
                   count = count (semantics n) + 1\<rparr>))
   \<and> (\<not> isSemanticsSet n \<longrightarrow>
        averageNodeSemantics (Some n) obs =
          Some (setSemantics n \<lparr>label = normalized obs, count = 1\<rparr>))
   \<and> averageNodeSemantics (Some (Node v col \<lparr>label = [Fin (1/2), Fin (1/2)], count = 1\<rparr> ch))
        [Fin 1, Fin 0]
        = Some (Node v col \<lparr>label = [Fin (3/4), Fin (1/4)], count = 2\<rparr> ch)"
proof (intro conjI impI)
  show "averageNodeSemantics None obs = None" by (simp add: averageNodeSemantics_def)
next
  assume set: "isSemanticsSet n"
  let ?s = "semantics n"
  let ?prev1 = "if length (label ?s) < length obs then ?s\<lparr>label := resize (label ?s) (length obs)\<rparr> else ?s"
  let ?grown = "label ?s @ replicate (length obs - length (label ?s)) (Fin 0)"
  have len: "length obs \<le> length (label ?prev1)" by (simp add: resize_def)
  have "for_loop 0 (length obs) (fuse_step obs) ?prev1
          = ?prev1\<lparr>label := map (\<lambda>i. fdiv (fadd (fmul (label ?prev1 ! i) (float_of_nat (unat (count ?prev1)))) (obs ! i))
                                     (float_of_nat (unat (count ?prev1 + 1)))) [0..<length obs]
                        @ drop (length obs) (label ?prev1)\<rparr>"
    unfolding for_loop_fold by (rule fuse_loop [OF len])
  also have "\<dots> = \<lparr>label = running_update (label ?s) (count ?s) obs, count = count ?s\<rparr>"
    unfolding grown_eq grown_count running_update_def Let_def
    by (subst fused_closed) simp_all
  finally have loop: "for_loop 0 (length obs) (fuse_step obs) ?prev1
     = \<lparr>label = running_update (label ?s) (count ?s) obs, count = count ?s\<rparr>" .
  show "averageNodeSemantics (Some n) obs =
          Some (setSemantics n
                  \<lparr>label = normalized (running_update (labelOf n) (count (semantics n)) obs),
                   count = count (semantics n) + 1\<rparr>)"
    apply (simp only: averageNodeSemantics_def [folded fuse_step_def] Let_def option.case set if_True loop)
    apply (simp add: normalizeSemantics_closed addSemanticsCount_def setSemantics_label_def
        setSemantics_def)
    done
next
  assume "\<not> isSemanticsSet n"
  then show "averageNodeSemantics (Some n) obs =
          Some (setSemantics n \<lparr>label = normalized obs, count = 1\<rparr>)"
    by (simp add: averageNodeSemantics_def normalizeSemantics_closed resetSemanticsCount_def
        setSemantics_label_def setSemantics_def)
next
  show "averageNodeSemantics (Some (Node v col \<lparr>label = [Fin (1/2), Fin (1/2)], count = 1\<rparr> ch))
        [Fin 1, Fin 0]
        = Some (Node v col \<lparr>label = [Fin (3/4), Fin (1/4)], count = 2\<rparr> ch)"
    by (simp add: averageNodeSemantics_def isSemanticsSet_def Let_def for_loop.simps
        normalizeSemantics_def addSemanticsCount_def setSemantics_label_def setSemantics_def
        float_of_nat_def fgt_def)
qed

theorem averageNodeSemantics_fusion_witness:
  "averageNodeSemantics (Some (Node 0 Color_default \<lparr>label = [Fin 1], count = 3\<rparr> None)) [Fin 0, Fin 1]
     = Some (Node 0 Color_default \<lparr>label = [Fin (3/4), Fin (1/4)], count = 4\<rparr> None)
   \<and> averageNodeSemantics (Some (Node 0 Color_default \<lparr>label = [], count = 7\<rparr> None)) [Fin 1, Fin 3]
     = Some (Node 0 Color_default \<lparr>label = [Fin (1/4), Fin (3/4)], count = 1\<rparr> None)"
  using averageNodeSemantics_fusion [of "[Fin 0, Fin 1]" "Node 0 Color_default \<lparr>label = [Fin 1], count = 3\<rparr> None" 0 Color_default None]
    averageNodeSemantics_fusion [of "[Fin 1, Fin 3]" "Node 0 Color_default \<lparr>label = [], count = 7\<rparr> None" 0 Color_default None]
  by (simp add: isSemanticsSet_def normalized_def running_update_def label_sum_def fgt_def
      float_of_nat_def setSemantics_def upt_conv_Cons)

section \<open>Aggregation over the children\<close>

lemma fold_slots:
  "fold (\<lambda>i acc. case child_at chs i of
                    None \<Rightarrow> acc
                  | Some child \<Rightarrow> if P child then h child acc else acc) js acc
     = fold h (filter P (List.map_filter (child_at chs) js)) acc"
proof (induction js arbitrary: acc)
  case Nil
  then show ?case by (simp add: List.map_filter_simps)
next
  case (Cons j js)
  then show ?case by (cases "child_at chs j") (simp_all add: List.map_filter_simps)
qed

lemma for_slots:
  "for_loop 0 8 (\<lambda>i acc. case child_at chs i of
                    None \<Rightarrow> acc
                  | Some child \<Rightarrow> if P child then h child acc else acc) acc
     = fold h (filter P (List.map_filter (child_at chs) [0..<8])) acc"
  unfolding for_loop_fold by (rule fold_slots)

lemma semantics_accumulate:
  "(case children n of
      None \<Rightarrow> ([], 0)
    | Some chs \<Rightarrow>
        for_loop 0 8
          (\<lambda>i (mlabel, c).
             case child_at chs i of
               None \<Rightarrow> (mlabel, c)
             | Some child \<Rightarrow>
                 if isSemanticsSet child
                 then (let clabel = label (semantics child);
                           mlabel1 = (if length mlabel < length clabel
                                      then resize mlabel (length clabel) else mlabel)
                       in (for_loop 0 (length clabel)
                             (\<lambda>l m. m[l := fadd (m ! l) (clabel ! l)]) mlabel1,
                           c + 1))
                 else (mlabel, c))
          ([], 0 :: nat))
   = fold addChildLabel (filter isSemanticsSet (existingChildren n)) ([], 0)"
proof (cases "children n")
  case None
  then show ?thesis by (simp add: existingChildren_def)
next
  case (Some chs)
  have "(\<lambda>i (mlabel, c).
             case child_at chs i of
               None \<Rightarrow> (mlabel, c)
             | Some child \<Rightarrow>
                 if isSemanticsSet child
                 then (let clabel = label (semantics child);
                           mlabel1 = (if length mlabel < length clabel
                                      then resize mlabel (length clabel) else mlabel)
                       in (for_loop 0 (length clabel)
                             (\<lambda>l m. m[l := fadd (m ! l) (clabel ! l)]) mlabel1,
                           c + 1))
                 else (mlabel, c))
      = (\<lambda>i acc. case child_at chs i of
                    None \<Rightarrow> acc
                  | Some child \<Rightarrow> if isSemanticsSet child then addChildLabel child acc else acc)"
    by (auto simp: fun_eq_iff addChildLabel_def split: option.splits)
  then show ?thesis
    by (simp only: Some option.case existingChildren_def for_slots)
qed

lemma color_accumulate:
  "(case children n of
      None \<Rightarrow> (0, 0, 0, 0)
    | Some chs \<Rightarrow>
        for_loop 0 8
          (\<lambda>i (mr, mg, mb, c).
             case child_at chs i of
               None \<Rightarrow> (mr, mg, mb, c)
             | Some child \<Rightarrow>
                 if isColorSet child
                 then (mr + uint (r (color child)), mg + uint (g (color child)),
                       mb + uint (b (color child)), c + 1)
                 else (mr, mg, mb, c))
          (0 :: int, 0 :: int, 0 :: int, 0 :: int))
   = fold addChildColor (filter isColorSet (existingChildren n)) (0, 0, 0, 0)"
proof (cases "children n")
  case None
  then show ?thesis by (simp add: existingChildren_def)
next
  case (Some chs)
  have "(\<lambda>i (mr, mg, mb, c).
             case child_at chs i of
               None \<Rightarrow> (mr, mg, mb, c)
             | Some child \<Rightarrow>
                 if isColorSet child
                 then (mr + uint (r (color child)), mg + uint (g (color child)),
                       mb + uint (b (color child)), c + 1)
                 else (mr, mg, mb, c))
      = (\<lambda>i acc. case child_at chs i of
                    None \<Rightarrow> acc
                  | Some child \<Rightarrow> if isColorSet child then addChildColor child acc else acc)"
    by (auto simp: fun_eq_iff addChildColor_def split: option.splits)
  then show ?thesis
    by (simp only: Some option.case existingChildren_def for_slots)
qed

lemma snd_fold_addChildLabel: "snd (fold addChildLabel cs (m, c)) = c + length cs"
  by (induction cs arbitrary: m c) (simp_all add: addChildLabel_def Let_def)

lemma getAverageChildSemantics_count:
  "count (getAverageChildSemantics n)
     = (if filter isSemanticsSet (existingChildren n) = [] then 0 else 1)"
proof -
  obtain m c where mc: "fold addChildLabel (filter isSemanticsSet (existingChildren n)) ([], 0) = (m, c)"
    by (cases "fold addChildLabel (filter isSemanticsSet (existingChildren n)) ([], 0)")
  have "c = length (filter isSemanticsSet (existingChildren n))"
    using snd_fold_addChildLabel [of "filter isSemanticsSet (existingChildren n)" "[]" 0] mc by simp
  then show ?thesis
    unfolding getAverageChildSemantics_def semantics_accumulate mc
    by (simp add: Semantics_default_def Semantics_of_label_def split: prod.splits)
qed

lemma getAverageChildSemantics_none:
  assumes "filter isSemanticsSet (existingChildren n) = []"
  shows "getAverageChildSemantics n = Semantics_default"
  unfolding getAverageChildSemantics_def semantics_accumulate assms by simp

lemma getAverageChildColor_none:
  assumes "filter isColorSet (existingChildren n) = []"
  shows "getAverageChildColor n = Color_default"
  unfolding getAverageChildColor_def color_accumulate assms
  by (simp add: Color_default_def Color_rgb_def)

lemma getAverageChildColor_map_empty:
  assumes "map_size l2c = 0"
  shows "getAverageChildColor_map l2c n = Inr (getAverageChildColor n)"
  using assms unfolding getAverageChildColor_map_def getAverageChildColor_def
  by (simp split: prod.splits)

text \<open>
  Claim C9.  \<^verbatim>\<open>updateSemanticsChildren\<close> does not read the count the node had: the
  count is 1 afterwards when some existing child has its semantics set, and 0 when none
  has.
\<close>

theorem updateSemanticsChildren_count:
  "((\<exists>c \<in> set (existingChildren n). isSemanticsSet c) \<longrightarrow>
      count (semantics (updateSemanticsChildren n)) = 1)
   \<and> ((\<forall>c \<in> set (existingChildren n). \<not> isSemanticsSet c) \<longrightarrow>
      count (semantics (updateSemanticsChildren n)) = 0)"
  by (auto simp: updateSemanticsChildren_def setSemantics_def getAverageChildSemantics_count
      filter_empty_conv)

theorem updateSemanticsChildren_count_witness:
  "count (semantics (updateSemanticsChildren
      (Node 0 Color_default \<lparr>label = [Fin 1], count = 9\<rparr>
         (Some [None, Some (Node 0 Color_default \<lparr>label = [Fin (1/2), Fin (1/2)], count = 3\<rparr> None)])))) = 1
   \<and> count (semantics (updateSemanticsChildren
      (Node 0 Color_default \<lparr>label = [Fin 1], count = 9\<rparr>
         (Some [Some (Node 0 Color_default \<lparr>label = [], count = 0\<rparr> None)])))) = 0"
proof -
  have a: "\<exists>c \<in> set (existingChildren (Node 0 Color_default \<lparr>label = [Fin 1], count = 9\<rparr>
         (Some [None, Some (Node 0 Color_default \<lparr>label = [Fin (1/2), Fin (1/2)], count = 3\<rparr> None)]))).
          isSemanticsSet c"
    by code_simp
  have b: "\<forall>c \<in> set (existingChildren (Node 0 Color_default \<lparr>label = [Fin 1], count = 9\<rparr>
         (Some [Some (Node 0 Color_default \<lparr>label = [], count = 0\<rparr> None)]))).
          \<not> isSemanticsSet c"
    by code_simp
  from a b
    updateSemanticsChildren_count [of "Node 0 Color_default \<lparr>label = [Fin 1], count = 9\<rparr>
         (Some [None, Some (Node 0 Color_default \<lparr>label = [Fin (1/2), Fin (1/2)], count = 3\<rparr> None)])"]
    updateSemanticsChildren_count [of "Node 0 Color_default \<lparr>label = [Fin 1], count = 9\<rparr>
         (Some [Some (Node 0 Color_default \<lparr>label = [], count = 0\<rparr> None)])"]
  show ?thesis by blast
qed

text \<open>
  Claim C2 (the code departs from it).  A node built by
  \<^verbatim>\<open>SemanticOcTreeNode(2)\<close> has the label vector \<open>[0, 0]\<close>, so its semantics are
  set.  For a parent whose only child it is, \<^verbatim>\<open>updateSemanticsChildren\<close> divides the
  accumulated entries by their sum 0: both entries of the parent become not-a-number, and
  their sum is not 1.  \<^verbatim>\<open>normalizeSemantics\<close> on the same vector gives the uniform
  distribution.
\<close>

theorem updateSemanticsChildren_zero_sum:
  "isSemanticsSet (SemanticOcTreeNode_classes 0 2)
   \<and> labelOf (SemanticOcTreeNode_classes 0 2) = [Fin 0, Fin 0]
   \<and> labelOf (updateSemanticsChildren
        (Node 0 Color_default Semantics_default
           (Some [Some (SemanticOcTreeNode_classes 0 2), None, None, None, None, None, None, None])))
       = [NaN, NaN]
   \<and> label_sum [NaN, NaN] = NaN
   \<and> labelOf (normalizeSemantics (SemanticOcTreeNode_classes 0 2)) = [Fin (1/2), Fin (1/2)]"
  by code_simp

section \<open>The aggregation pass\<close>

lemma map_size_empty: "map_size m = 0 \<longleftrightarrow> m = []"
  by (cases m) (auto simp: map_size_def)

lemma forExistingChildren_Inr:
  assumes "\<And>c. Some c \<in> set cs \<Longrightarrow> \<exists>c1. f c = Inr c1"
  shows "\<exists>cs1. forExistingChildren f cs = Inr cs1"
  using assms
proof (induction cs)
  case Nil
  then show ?case by simp
next
  case (Cons x cs)
  then obtain cs1 where cs1: "forExistingChildren f cs = Inr cs1" by auto
  show ?case
  proof (cases x)
    case None
    with cs1 show ?thesis by simp
  next
    case (Some c)
    with Cons.prems obtain c1 where "f c = Inr c1" by auto
    with Some cs1 show ?thesis by simp
  qed
qed

lemma existingChildren_cong: "children n = children m \<Longrightarrow> existingChildren n = existingChildren m"
  by (simp add: existingChildren_def)

lemma pass_empty_map_total:
  "map_size (label2color t) = 0 \<Longrightarrow> \<exists>n1. updateInnerOccupancyRecurs occ t n depth = Inr n1"
proof (induction occ t n depth rule: updateInnerOccupancyRecurs.induct)
  case (1 occ t v col sem chn depth)
  show ?case
  proof (cases "nodeHasChildren (Node v col sem chn)")
    case False
    then show ?thesis
      using "1.prems"
      by (simp add: updateInnerOccupancyRecurs.simps updateColorChildren_map_def
          getAverageChildColor_map_empty)
  next
    case inner: True
    have "\<exists>chn1. (if depth < tree_depth t
               then (case chn of
                       None \<Rightarrow> Inr None
                     | Some chs \<Rightarrow>
                         (case forExistingChildren
                                 (\<lambda>child. updateInnerOccupancyRecurs occ t child (depth + 1))
                                 (take 8 chs) of
                            Inl e \<Rightarrow> Inl e
                          | Inr chs1 \<Rightarrow> Inr (Some (chs1 @ drop 8 chs))))
               else Inr chn) = Inr chn1"
    proof (cases "depth < tree_depth t")
      case False
      then show ?thesis by simp
    next
      case deep: True
      show ?thesis
      proof (cases chn)
        case None
        with deep show ?thesis by simp
      next
        case (Some chs)
        have "\<exists>cs1. forExistingChildren
                 (\<lambda>child. updateInnerOccupancyRecurs occ t child (depth + 1)) (take 8 chs) = Inr cs1"
          by (rule forExistingChildren_Inr) (use "1.IH" [OF inner deep Some] "1.prems" in blast)
        with deep Some show ?thesis by auto
      qed
    qed
    then obtain chn1 where "(if depth < tree_depth t
               then (case chn of
                       None \<Rightarrow> Inr None
                     | Some chs \<Rightarrow>
                         (case forExistingChildren
                                 (\<lambda>child. updateInnerOccupancyRecurs occ t child (depth + 1))
                                 (take 8 chs) of
                            Inl e \<Rightarrow> Inl e
                          | Inr chs1 \<Rightarrow> Inr (Some (chs1 @ drop 8 chs))))
               else Inr chn) = Inr chn1" ..
    with inner "1.prems" show ?thesis
      by (simp add: updateInnerOccupancyRecurs.simps)
  qed
qed


lemma updates_children [simp]:
  "children (updateColorChildren n) = children n"
  "children (updateSemanticsChildren n) = children n"
  "children (updateOccupancyChildren occ n) = children n"
  by (simp_all add: updateColorChildren_def updateSemanticsChildren_def updateOccupancyChildren_def
      setColor_def setSemantics_def setValue_def)

lemma pass_empty_map_inner:
  assumes "map_size (label2color t) = 0" and "nodeHasChildren n"
  shows "\<exists>chn1. (\<not> depth < tree_depth t \<longrightarrow> chn1 = children n)
           \<and> updateInnerOccupancyRecurs occ t n depth =
               Inr (updateColorChildren (updateSemanticsChildren (updateOccupancyChildren occ
                      (Node (node_value n) (color n) (semantics n) chn1))))"
proof (cases n)
  case (Node v col sem chn)
  have "\<exists>chn1. (\<not> depth < tree_depth t \<longrightarrow> chn1 = chn) \<and>
            (if depth < tree_depth t
               then (case chn of
                       None \<Rightarrow> Inr None
                     | Some chs \<Rightarrow>
                         (case forExistingChildren
                                 (\<lambda>child. updateInnerOccupancyRecurs occ t child (depth + 1))
                                 (take 8 chs) of
                            Inl e \<Rightarrow> Inl e
                          | Inr chs1 \<Rightarrow> Inr (Some (chs1 @ drop 8 chs))))
               else Inr chn) = Inr chn1"
  proof (cases "depth < tree_depth t")
    case False
    then show ?thesis by simp
  next
    case deep: True
    show ?thesis
    proof (cases chn)
      case None
      with deep show ?thesis by simp
    next
      case (Some chs)
      have "\<exists>cs1. forExistingChildren
               (\<lambda>child. updateInnerOccupancyRecurs occ t child (depth + 1)) (take 8 chs) = Inr cs1"
        by (rule forExistingChildren_Inr) (use pass_empty_map_total [OF assms(1)] in blast)
      with deep Some show ?thesis by auto
    qed
  qed
  then obtain chn1 where a: "\<not> depth < tree_depth t \<longrightarrow> chn1 = chn"
    and b: "(if depth < tree_depth t
               then (case chn of
                       None \<Rightarrow> Inr None
                     | Some chs \<Rightarrow>
                         (case forExistingChildren
                                 (\<lambda>child. updateInnerOccupancyRecurs occ t child (depth + 1))
                                 (take 8 chs) of
                            Inl e \<Rightarrow> Inl e
                          | Inr chs1 \<Rightarrow> Inr (Some (chs1 @ drop 8 chs))))
               else Inr chn) = Inr chn1" by blast
  have "updateInnerOccupancyRecurs occ t n depth =
          Inr (updateColorChildren (updateSemanticsChildren (updateOccupancyChildren occ
                      (Node (node_value n) (color n) (semantics n) chn1))))"
    using assms b by (simp add: Node updateInnerOccupancyRecurs.simps)
  with a Node show ?thesis by auto
qed

lemma nodeHasChildren_iff: "nodeHasChildren n \<longleftrightarrow> existingChildren n \<noteq> []"
proof (cases "children n")
  case None
  then show ?thesis by (simp add: nodeHasChildren_def existingChildren_def)
next
  case (Some chs)
  have "fold (\<lambda>i found. found \<or> child_at chs i \<noteq> None) js f0
          = (f0 \<or> List.map_filter (child_at chs) js \<noteq> [])" for js f0
    by (induction js arbitrary: f0) (auto simp: List.map_filter_simps split: option.splits)
  then show ?thesis
    by (simp add: Some nodeHasChildren_def existingChildren_def for_loop_fold)
qed

lemma pass_leaf:
  assumes "\<not> nodeHasChildren n"
  shows "updateInnerOccupancyRecurs occ t n depth = updateColorChildren_map (label2color t) n"
  using assms by (cases n) (simp add: updateInnerOccupancyRecurs.simps)

text \<open>
  Claim C6.  With an empty label-colour map, the pass on an inner node raises no exception;
  the colour of the node is white (255, 255, 255) afterwards when none of its existing
  children has a set colour, and its semantics are the empty vector with count 0 when none
  of its existing children has set semantics, whatever they were before.  The children are
  those the node has when it reads them: its own at the last level, where they are not
  descended into.  The same holds of \<^verbatim>\<open>updateColorChildren\<close>, of the map overload of
  \<^verbatim>\<open>getAverageChildColor\<close> and of \<^verbatim>\<open>updateSemanticsChildren\<close> on any node.
\<close>

theorem aggregation_fallbacks:
  "(map_size (label2color t) = 0 \<and> nodeHasChildren n \<longrightarrow>
      (\<exists>n1. updateInnerOccupancyRecurs occ t n depth = Inr n1
         \<and> (\<not> depth < tree_depth t \<longrightarrow> children n1 = children n)
         \<and> ((\<forall>c \<in> set (existingChildren n1). \<not> isColorSet c) \<longrightarrow>
               color n1 = \<lparr>r = 255, g = 255, b = 255\<rparr>)
         \<and> ((\<forall>c \<in> set (existingChildren n1). \<not> isSemanticsSet c) \<longrightarrow>
               semantics n1 = \<lparr>label = [], count = 0\<rparr>)))
   \<and> ((\<forall>c \<in> set (existingChildren n). \<not> isColorSet c) \<longrightarrow>
         color (updateColorChildren n) = \<lparr>r = 255, g = 255, b = 255\<rparr>
       \<and> getAverageChildColor_map [] n = Inr \<lparr>r = 255, g = 255, b = 255\<rparr>)
   \<and> ((\<forall>c \<in> set (existingChildren n). \<not> isSemanticsSet c) \<longrightarrow>
         semantics (updateSemanticsChildren n) = \<lparr>label = [], count = 0\<rparr>)"
proof (intro conjI impI)
  assume a: "map_size (label2color t) = 0 \<and> nodeHasChildren n"
  then obtain chn1 where keep: "\<not> depth < tree_depth t \<longrightarrow> chn1 = children n"
    and res: "updateInnerOccupancyRecurs occ t n depth =
               Inr (updateColorChildren (updateSemanticsChildren (updateOccupancyChildren occ
                      (Node (node_value n) (color n) (semantics n) chn1))))"
    using pass_empty_map_inner [of t n depth occ] by blast
  let ?n0 = "Node (node_value n) (color n) (semantics n) chn1"
  let ?n1 = "updateOccupancyChildren occ ?n0"
  let ?n2 = "updateSemanticsChildren ?n1"
  let ?n3 = "updateColorChildren ?n2"
  have ex: "existingChildren ?n3 = existingChildren ?n2"
    and ex1: "existingChildren ?n3 = existingChildren ?n1"
    by (simp_all add: existingChildren_def)
  have col: "color ?n3 = \<lparr>r = 255, g = 255, b = 255\<rparr>"
    if "\<forall>c \<in> set (existingChildren ?n3). \<not> isColorSet c"
  proof -
    from that have "filter isColorSet (existingChildren ?n2) = []"
      unfolding ex by (simp add: filter_empty_conv)
    then show ?thesis
      by (simp add: updateColorChildren_def setColor_def getAverageChildColor_none Color_default_def)
  qed
  have sem: "semantics ?n3 = \<lparr>label = [], count = 0\<rparr>"
    if "\<forall>c \<in> set (existingChildren ?n3). \<not> isSemanticsSet c"
  proof -
    from that have "filter isSemanticsSet (existingChildren ?n1) = []"
      unfolding ex1 by (simp add: filter_empty_conv)
    then show ?thesis
      by (simp add: updateColorChildren_def updateSemanticsChildren_def setColor_def
          setSemantics_def getAverageChildSemantics_none Semantics_default_def)
  qed
  from keep have "\<not> depth < tree_depth t \<longrightarrow> children ?n3 = children n" by simp
  with res col sem
  show "\<exists>n1. updateInnerOccupancyRecurs occ t n depth = Inr n1
         \<and> (\<not> depth < tree_depth t \<longrightarrow> children n1 = children n)
         \<and> ((\<forall>c \<in> set (existingChildren n1). \<not> isColorSet c) \<longrightarrow>
               color n1 = \<lparr>r = 255, g = 255, b = 255\<rparr>)
         \<and> ((\<forall>c \<in> set (existingChildren n1). \<not> isSemanticsSet c) \<longrightarrow>
               semantics n1 = \<lparr>label = [], count = 0\<rparr>)"
    by blast
next
  assume "\<forall>c \<in> set (existingChildren n). \<not> isColorSet c"
  then have e: "filter isColorSet (existingChildren n) = []" by (simp add: filter_empty_conv)
  then show "color (updateColorChildren n) = \<lparr>r = 255, g = 255, b = 255\<rparr>"
    by (simp add: updateColorChildren_def setColor_def getAverageChildColor_none Color_default_def)
  from e show "getAverageChildColor_map [] n = Inr \<lparr>r = 255, g = 255, b = 255\<rparr>"
    by (simp add: getAverageChildColor_map_empty map_size_def getAverageChildColor_none Color_default_def)
next
  assume "\<forall>c \<in> set (existingChildren n). \<not> isSemanticsSet c"
  then have "filter isSemanticsSet (existingChildren n) = []" by (simp add: filter_empty_conv)
  then show "semantics (updateSemanticsChildren n) = \<lparr>label = [], count = 0\<rparr>"
    by (simp add: updateSemanticsChildren_def setSemantics_def getAverageChildSemantics_none
        Semantics_default_def)
qed

theorem aggregation_fallbacks_witness:
  "\<exists>n1. updateInnerOccupancyRecurs node_value
            \<lparr>label2color = [], num_class = 2, tree_depth = 16, root = None\<rparr>
            (Node 7 \<lparr>r = 1, g = 2, b = 3\<rparr> \<lparr>label = [Fin 1], count = 5\<rparr>
               (Some [Some (Node 0 \<lparr>r = 255, g = 255, b = 255\<rparr> \<lparr>label = [], count = 0\<rparr> None)]))
            16 = Inr n1
        \<and> color n1 = \<lparr>r = 255, g = 255, b = 255\<rparr>
        \<and> semantics n1 = \<lparr>label = [], count = 0\<rparr>"
proof -
  let ?t = "\<lparr>label2color = [], num_class = 2, tree_depth = 16, root = None\<rparr>"
  let ?child = "Node 0 \<lparr>r = 255, g = 255, b = 255\<rparr> \<lparr>label = [], count = 0\<rparr> None"
  let ?n = "Node 7 \<lparr>r = 1, g = 2, b = 3\<rparr> \<lparr>label = [Fin 1], count = 5\<rparr> (Some [Some ?child])"
  have hyp: "map_size (label2color ?t) = 0 \<and> nodeHasChildren ?n" by code_simp
  have ex: "existingChildren ?n = [?child]" by code_simp
  have unset: "\<not> isColorSet ?child" "\<not> isSemanticsSet ?child" by code_simp+
  from aggregation_fallbacks [of ?t ?n node_value 16] hyp
  obtain n1 where res: "updateInnerOccupancyRecurs node_value ?t ?n 16 = Inr n1"
    and ch: "children n1 = Some [Some ?child]"
    and col: "(\<forall>c \<in> set (existingChildren n1). \<not> isColorSet c) \<longrightarrow>
               color n1 = \<lparr>r = 255, g = 255, b = 255\<rparr>"
    and sem: "(\<forall>c \<in> set (existingChildren n1). \<not> isSemanticsSet c) \<longrightarrow>
               semantics n1 = \<lparr>label = [], count = 0\<rparr>"
    by auto
  from ch have "existingChildren n1 = existingChildren ?n" by (simp add: existingChildren_def)
  with ex unset col sem have "color n1 = \<lparr>r = 255, g = 255, b = 255\<rparr>"
    "semantics n1 = \<lparr>label = [], count = 0\<rparr>" by simp_all
  with res show ?thesis by blast
qed

text \<open>
  Claim C1, as the code has it.  The pass on a leaf, with a non-empty label-colour map:
  when the semantics of the leaf are set, the colour of the leaf becomes the map entry of
  the index that \<^verbatim>\<open>std::max_element\<close> finds in its label vector, the first index of
  the largest entry, and \<^verbatim>\<open>std::out_of_range\<close> is thrown when the map has no such
  entry; when the semantics are unset, the maximum is not looked for and the colour becomes
  white (255, 255, 255).
\<close>

theorem leaf_color_from_map:
  "(\<not> nodeHasChildren n \<and> map_size (label2color t) \<noteq> 0 \<and> isSemanticsSet n \<longrightarrow>
      updateInnerOccupancyRecurs occ t n depth =
        (case map_of (label2color t) (int (max_element (labelOf n))) of
           None \<Rightarrow> Inl OutOfRange
         | Some (c0, c1, c2) \<Rightarrow> Inr (setColor n \<lparr>r = c0, g = c1, b = c2\<rparr>)))
   \<and> (isSemanticsSet n \<and> list_all (\<lambda>x. \<not> isNaN x) (labelOf n) \<longrightarrow>
        is_first_max (labelOf n) (max_element (labelOf n)))
   \<and> (\<not> nodeHasChildren n \<and> map_size (label2color t) \<noteq> 0 \<and> \<not> isSemanticsSet n \<longrightarrow>
        updateInnerOccupancyRecurs occ t n depth = Inr (setColor n \<lparr>r = 255, g = 255, b = 255\<rparr>))"
proof (intro conjI impI)
  assume "\<not> nodeHasChildren n \<and> map_size (label2color t) \<noteq> 0 \<and> isSemanticsSet n"
  then show "updateInnerOccupancyRecurs occ t n depth =
        (case map_of (label2color t) (int (max_element (labelOf n))) of
           None \<Rightarrow> Inl OutOfRange
         | Some (c0, c1, c2) \<Rightarrow> Inr (setColor n \<lparr>r = c0, g = c1, b = c2\<rparr>))"
    by (simp add: pass_leaf updateColorChildren_map_def getAverageChildColor_map_def
        isSemanticsSet_def map_at_def Color_rgb_def Let_def split: option.splits)
next
  assume "isSemanticsSet n \<and> list_all (\<lambda>x. \<not> isNaN x) (labelOf n)"
  then show "is_first_max (labelOf n) (max_element (labelOf n))"
    by (intro max_element_first_max) (auto simp: isSemanticsSet_def)
next
  assume "\<not> nodeHasChildren n \<and> map_size (label2color t) \<noteq> 0 \<and> \<not> isSemanticsSet n"
  then show "updateInnerOccupancyRecurs occ t n depth = Inr (setColor n \<lparr>r = 255, g = 255, b = 255\<rparr>)"
    by (simp add: pass_leaf updateColorChildren_map_def getAverageChildColor_map_def
        isSemanticsSet_def Color_rgb_def)
qed

theorem leaf_color_from_map_witness:
  "updateInnerOccupancyRecurs node_value
       \<lparr>label2color = [(0, (1, 2, 3)), (1, (4, 5, 6))], num_class = 2, tree_depth = 16, root = None\<rparr>
       (Node 0 \<lparr>r = 10, g = 20, b = 30\<rparr> \<lparr>label = [Fin (1/4), Fin (3/4)], count = 1\<rparr> None) 0
     = Inr (Node 0 \<lparr>r = 4, g = 5, b = 6\<rparr> \<lparr>label = [Fin (1/4), Fin (3/4)], count = 1\<rparr> None)
   \<and> is_first_max [Fin (1/4), Fin (3/4)] (max_element [Fin (1/4), Fin (3/4)])
   \<and> updateInnerOccupancyRecurs node_value
       \<lparr>label2color = [(0, (1, 2, 3)), (1, (4, 5, 6))], num_class = 2, tree_depth = 16, root = None\<rparr>
       (Node 0 \<lparr>r = 10, g = 20, b = 30\<rparr> \<lparr>label = [], count = 0\<rparr> None) 0
     = Inr (Node 0 \<lparr>r = 255, g = 255, b = 255\<rparr> \<lparr>label = [], count = 0\<rparr> None)"
proof -
  let ?t = "\<lparr>label2color = [(0, (1, 2, 3)), (1, (4, 5, 6))], num_class = 2, tree_depth = 16,
             root = None\<rparr>"
  let ?a = "Node 0 \<lparr>r = 10, g = 20, b = 30\<rparr> \<lparr>label = [Fin (1/4), Fin (3/4)], count = 1\<rparr> None"
  let ?c = "Node 0 \<lparr>r = 10, g = 20, b = 30\<rparr> \<lparr>label = [], count = 0\<rparr> None"
  have ha: "\<not> nodeHasChildren ?a \<and> map_size (label2color ?t) \<noteq> 0 \<and> isSemanticsSet ?a"
    by code_simp
  have na: "isSemanticsSet ?a \<and> list_all (\<lambda>x. \<not> isNaN x) (labelOf ?a)" by code_simp
  have hc: "\<not> nodeHasChildren ?c \<and> map_size (label2color ?t) \<noteq> 0 \<and> \<not> isSemanticsSet ?c"
    by code_simp
  have me: "max_element [Fin (1/4), Fin (3/4)] = 1" by code_simp
  from leaf_color_from_map [of ?a ?t node_value 0] leaf_color_from_map [of ?c ?t node_value 0]
    ha na hc me
  show ?thesis by (simp add: setColor_def)
qed

text \<open>
  Claim C1 as stated fails: a leaf of colour (10, 20, 30) whose semantics are unset does
  not keep its colour under a non-empty label-colour map.
\<close>

theorem leaf_color_unchanged_counterexample:
  "\<not> nodeHasChildren (Node 0 \<lparr>r = 10, g = 20, b = 30\<rparr> \<lparr>label = [], count = 0\<rparr> None)
   \<and> \<not> isSemanticsSet (Node 0 \<lparr>r = 10, g = 20, b = 30\<rparr> \<lparr>label = [], count = 0\<rparr> None)
   \<and> map_size [(0, (1, 2, 3))] \<noteq> 0
   \<and> updateInnerOccupancyRecurs node_value
       \<lparr>label2color = [(0, (1, 2, 3))], num_class = 2, tree_depth = 16, root = None\<rparr>
       (Node 0 \<lparr>r = 10, g = 20, b = 30\<rparr> \<lparr>label = [], count = 0\<rparr> None) 0
     = Inr (Node 0 \<lparr>r = 255, g = 255, b = 255\<rparr> \<lparr>label = [], count = 0\<rparr> None)
   \<and> color (Node 0 \<lparr>r = 255, g = 255, b = 255\<rparr> \<lparr>label = [], count = 0\<rparr> None)
       \<noteq> color (Node 0 \<lparr>r = 10, g = 20, b = 30\<rparr> \<lparr>label = [], count = 0\<rparr> None)"
  by code_simp

text \<open>
  With an empty label-colour map the pass takes a leaf through the averaging branch of the
  map overload: there is no child to average, and the colour of the leaf becomes white.
\<close>

lemma leaf_empty_map:
  assumes "\<not> nodeHasChildren n" and "map_size (label2color t) = 0"
  shows "updateInnerOccupancyRecurs occ t n depth = Inr (setColor n \<lparr>r = 255, g = 255, b = 255\<rparr>)"
proof -
  from assms(1) have "filter isColorSet (existingChildren n) = []"
    by (simp add: nodeHasChildren_iff)
  then show ?thesis
    using assms
    by (simp add: pass_leaf updateColorChildren_map_def getAverageChildColor_map_empty
        getAverageChildColor_none Color_default_def)
qed

end
